theory Spec2Isabelle
  imports Complex_Main "HOL-Library.Word"
begin

section \<open>Handle registry (handle\_registry\_base.h)\<close>

text \<open>
  A handle is a \<open>uint64_t\<close>; \<open>0\<close> is the null handle. The registry holds one counter and
  two maps. Threads are not modelled: \<open>fetch_add\<close> is the sequential read-and-increment,
  on 64-bit words, so the counter wraps as the machine integer does.
\<close>

type_synonym handle = "64 word"

definition CG_NULL_ID :: handle where
  "CG_NULL_ID = 0"

record ('s, 'm) HandleRegistryBase =
  next_id :: handle
  shapes :: "handle \<rightharpoonup> 's"
  meshes :: "handle \<rightharpoonup> 'm"

text \<open>The constructor: \<open>next_id_(1)\<close>, both maps empty.\<close>

definition new_registry :: "('s, 'm) HandleRegistryBase" where
  "new_registry = \<lparr>next_id = 1, shapes = Map.empty, meshes = Map.empty\<rparr>"

text \<open>\<open>std::unordered_map::emplace\<close> inserts only when the key is absent.\<close>

definition emplace :: "(handle \<rightharpoonup> 'v) \<Rightarrow> handle \<Rightarrow> 'v \<Rightarrow> (handle \<rightharpoonup> 'v)" where
  "emplace m k v = (case m k of None \<Rightarrow> m(k \<mapsto> v) | Some old \<Rightarrow> m)"

definition store_shape ::
  "'s \<Rightarrow> ('s, 'm) HandleRegistryBase \<Rightarrow> handle \<times> ('s, 'm) HandleRegistryBase" where
  "store_shape shape r =
     (let h = next_id r
      in (h, r\<lparr>next_id := h + 1, shapes := emplace (shapes r) h shape\<rparr>))"

definition store_mesh ::
  "'m \<Rightarrow> ('s, 'm) HandleRegistryBase \<Rightarrow> handle \<times> ('s, 'm) HandleRegistryBase" where
  "store_mesh mesh r =
     (let h = next_id r
      in (h, r\<lparr>next_id := h + 1, meshes := emplace (meshes r) h mesh\<rparr>))"

text \<open>\<open>get_shape\<close> and \<open>get_mesh\<close> throw \<open>std::out_of_range\<close> for an absent id.\<close>

datatype registry_error = NotFound

definition get_shape :: "('s, 'm) HandleRegistryBase \<Rightarrow> handle \<Rightarrow> registry_error + 's" where
  "get_shape r h = (case shapes r h of None \<Rightarrow> Inl NotFound | Some s \<Rightarrow> Inr s)"

definition get_mesh :: "('s, 'm) HandleRegistryBase \<Rightarrow> handle \<Rightarrow> registry_error + 'm" where
  "get_mesh r h = (case meshes r h of None \<Rightarrow> Inl NotFound | Some m \<Rightarrow> Inr m)"

text \<open>\<open>erase(id) > 0\<close>: whether an entry was removed, and the registry without it.\<close>

definition free_shape ::
  "handle \<Rightarrow> ('s, 'm) HandleRegistryBase \<Rightarrow> bool \<times> ('s, 'm) HandleRegistryBase" where
  "free_shape h r = (shapes r h \<noteq> None, r\<lparr>shapes := (shapes r)(h := None)\<rparr>)"

definition free_mesh ::
  "handle \<Rightarrow> ('s, 'm) HandleRegistryBase \<Rightarrow> bool \<times> ('s, 'm) HandleRegistryBase" where
  "free_mesh h r = (meshes r h \<noteq> None, r\<lparr>meshes := (meshes r)(h := None)\<rparr>)"

section \<open>Process state of the C API (cam\_geometry.cpp)\<close>

text \<open>
  The globals of cam\_geometry.cpp: the registry singleton of handle\_registry.cpp, the
  file-local mesh store with its own counter \<open>g_mesh_next_id{1}\<close>, and the last-error
  string of the calling thread.
\<close>

record ('s, 'm, 'd) cg_state =
  registry :: "('s, 'm) HandleRegistryBase"
  g_mesh_store :: "handle \<rightharpoonup> 'd"
  g_mesh_next_id :: handle
  g_last_error :: string

definition initial_state :: "('s, 'm, 'd) cg_state" where
  "initial_state =
     \<lparr>registry = new_registry, g_mesh_store = Map.empty, g_mesh_next_id = 1,
      g_last_error = []\<rparr>"

definition set_last_error :: "string \<Rightarrow> ('s, 'm, 'd) cg_state \<Rightarrow> ('s, 'm, 'd) cg_state" where
  "set_last_error msg st = st\<lparr>g_last_error := msg\<rparr>"

definition mesh_store_insert ::
  "'d \<Rightarrow> ('s, 'm, 'd) cg_state \<Rightarrow> handle \<times> ('s, 'm, 'd) cg_state" where
  "mesh_store_insert data st =
     (let h = g_mesh_next_id st
      in (h, st\<lparr>g_mesh_next_id := h + 1,
                  g_mesh_store := emplace (g_mesh_store st) h data\<rparr>))"

definition mesh_store_get :: "handle \<Rightarrow> ('s, 'm, 'd) cg_state \<Rightarrow> 'd option" where
  "mesh_store_get h st = g_mesh_store st h"

definition mesh_store_erase ::
  "handle \<Rightarrow> ('s, 'm, 'd) cg_state \<Rightarrow> bool \<times> ('s, 'm, 'd) cg_state" where
  "mesh_store_erase h st =
     (g_mesh_store st h \<noteq> None, st\<lparr>g_mesh_store := (g_mesh_store st)(h := None)\<rparr>)"

text \<open>The wrappers of handle\_registry.cpp on the singleton; the free wrappers drop the flag.\<close>

definition registry_store_shape ::
  "'s \<Rightarrow> ('s, 'm, 'd) cg_state \<Rightarrow> handle \<times> ('s, 'm, 'd) cg_state" where
  "registry_store_shape shape st =
     (let (h, r) = store_shape shape (registry st) in (h, st\<lparr>registry := r\<rparr>))"

definition registry_store_mesh ::
  "'m \<Rightarrow> ('s, 'm, 'd) cg_state \<Rightarrow> handle \<times> ('s, 'm, 'd) cg_state" where
  "registry_store_mesh mesh st =
     (let (h, r) = store_mesh mesh (registry st) in (h, st\<lparr>registry := r\<rparr>))"

definition registry_get_shape :: "handle \<Rightarrow> ('s, 'm, 'd) cg_state \<Rightarrow> registry_error + 's" where
  "registry_get_shape h st = get_shape (registry st) h"

definition registry_free_shape :: "handle \<Rightarrow> ('s, 'm, 'd) cg_state \<Rightarrow> ('s, 'm, 'd) cg_state" where
  "registry_free_shape h st = st\<lparr>registry := snd (free_shape h (registry st))\<rparr>"

definition registry_free_mesh :: "handle \<Rightarrow> ('s, 'm, 'd) cg_state \<Rightarrow> ('s, 'm, 'd) cg_state" where
  "registry_free_mesh h st = st\<lparr>registry := snd (free_mesh h (registry st))\<rparr>"

definition cg_shape_free :: "handle \<Rightarrow> ('s, 'm, 'd) cg_state \<Rightarrow> ('s, 'm, 'd) cg_state" where
  "cg_shape_free h st = (if h = CG_NULL_ID then st else registry_free_shape h st)"

definition cg_mesh_free :: "handle \<Rightarrow> ('s, 'm, 'd) cg_state \<Rightarrow> ('s, 'm, 'd) cg_state" where
  "cg_mesh_free h st = (if h = CG_NULL_ID then st else snd (mesh_store_erase h st))"

subsection \<open>Sequences of store and free operations\<close>

text \<open>
  One store or free call on the process state, and the log of the ids a sequence of calls
  issues, each with the store that issued it.
\<close>

datatype id_kind = ShapeId | MeshId | MeshBufferId

datatype ('s, 'm, 'd) store_op =
  Store_shape 's
  | Store_mesh 'm
  | Mesh_store_insert 'd
  | Free_shape handle
  | Free_mesh handle
  | Mesh_store_erase handle

fun store_step ::
  "('s, 'm, 'd) store_op \<Rightarrow> ('s, 'm, 'd) cg_state
     \<Rightarrow> (id_kind \<times> handle) option \<times> ('s, 'm, 'd) cg_state" where
  "store_step (Store_shape s) st =
     (let (h, st') = registry_store_shape s st in (Some (ShapeId, h), st'))"
| "store_step (Store_mesh m) st =
     (let (h, st') = registry_store_mesh m st in (Some (MeshId, h), st'))"
| "store_step (Mesh_store_insert d) st =
     (let (h, st') = mesh_store_insert d st in (Some (MeshBufferId, h), st'))"
| "store_step (Free_shape h) st = (None, registry_free_shape h st)"
| "store_step (Free_mesh h) st = (None, registry_free_mesh h st)"
| "store_step (Mesh_store_erase h) st = (None, snd (mesh_store_erase h st))"

fun issued ::
  "('s, 'm, 'd) store_op list \<Rightarrow> ('s, 'm, 'd) cg_state \<Rightarrow> (id_kind \<times> handle) list" where
  "issued [] st = []"
| "issued (x # xs) st =
     (case store_step x st of
        (None, st') \<Rightarrow> issued xs st'
      | (Some kid, st') \<Rightarrow> kid # issued xs st')"

fun run_ops :: "('s, 'm, 'd) store_op list \<Rightarrow> ('s, 'm, 'd) cg_state \<Rightarrow> ('s, 'm, 'd) cg_state" where
  "run_ops [] st = st"
| "run_ops (x # xs) st = run_ops xs (snd (store_step x st))"

text \<open>The ids of the registry's counter and those of the mesh store's counter, in order.\<close>

definition registry_ids :: "(id_kind \<times> handle) list \<Rightarrow> handle list" where
  "registry_ids entries = map snd (filter (\<lambda>(k, i). k \<noteq> MeshBufferId) entries)"

definition mesh_buffer_ids :: "(id_kind \<times> handle) list \<Rightarrow> handle list" where
  "mesh_buffer_ids entries = map snd (filter (\<lambda>(k, i). k = MeshBufferId) entries)"

text \<open>How many ids a sequence draws from each counter.\<close>

fun registry_stores :: "('s, 'm, 'd) store_op list \<Rightarrow> nat" where
  "registry_stores [] = 0"
| "registry_stores (Store_shape s # xs) = Suc (registry_stores xs)"
| "registry_stores (Store_mesh m # xs) = Suc (registry_stores xs)"
| "registry_stores (x # xs) = registry_stores xs"

fun mesh_buffer_stores :: "('s, 'm, 'd) store_op list \<Rightarrow> nat" where
  "mesh_buffer_stores [] = 0"
| "mesh_buffer_stores (Mesh_store_insert d # xs) = Suc (mesh_buffer_stores xs)"
| "mesh_buffer_stores (x # xs) = mesh_buffer_stores xs"

section \<open>Mesh assembly (cam\_geometry.cpp)\<close>

text \<open>
  \<open>CgMeshData\<close>: three flat buffers. A coordinate is any type with \<open>0\<close>, \<open>+\<close>, \<open>-\<close>
  and \<open>*\<close>; no law of arithmetic is assumed of it, so what is proved of the assembly holds
  whatever the arithmetic of \<open>double\<close> does. Indices are \<open>uint32_t\<close>.
\<close>

record 'a CgMeshData =
  vertices :: "'a list"
  normals :: "'a list"
  indices :: "32 word list"

definition empty_mesh :: "'a CgMeshData" where
  "empty_mesh = \<lparr>vertices = [], normals = [], indices = []\<rparr>"

text \<open>
  What the assembly reads of the geometry kernel's objects. A \<open>gp_Pnt\<close> or \<open>gp_Vec\<close> is
  its three coordinates. A \<open>Poly_Triangulation\<close> is its nodes (\<open>Node(1)\<close> first) and its
  triangles, each three \<open>int\<close> node numbers. A \<open>TopLoc_Location\<close> is \<open>None\<close> when
  \<open>IsIdentity()\<close> holds and otherwise the map \<open>p.Transform(loc.Transformation())\<close>
  applies to a point.
\<close>

type_synonym 'a gp_Pnt = "'a \<times> 'a \<times> 'a"

record 'a Poly_Triangulation =
  Nodes :: "'a gp_Pnt list"
  Triangles :: "(int \<times> int \<times> int) list"

type_synonym 'a TopLoc_Location = "('a gp_Pnt \<Rightarrow> 'a gp_Pnt) option"

text \<open>\<open>gp_Vec::Crossed\<close>, the cross product by its coordinate formula.\<close>

definition Crossed :: "'a::{minus,times} gp_Pnt \<Rightarrow> 'a gp_Pnt \<Rightarrow> 'a gp_Pnt" where
  "Crossed a b =
     (case a of (x1, y1, z1) \<Rightarrow> case b of (x2, y2, z2) \<Rightarrow>
        (y1 * z2 - z1 * y2, z1 * x2 - x1 * z2, x1 * y2 - y1 * x2))"

text \<open>\<open>base + static_cast<uint32_t>(n - 1)\<close>, for a node number \<open>n\<close> of type \<open>int\<close>.\<close>

definition global_index :: "32 word \<Rightarrow> int \<Rightarrow> 32 word" where
  "global_index base n = base + word_of_int (n - 1)"

text \<open>
  The node loop, \<open>i\<close> counting from 1. The index \<open>vi * 3 + k\<close> is computed in
  \<open>uint32_t\<close>. \<open>operator[]\<close> past the end of a vector is undefined behaviour: \<open>None\<close>.
\<close>

fun copy_nodes ::
  "'a TopLoc_Location \<Rightarrow> 32 word \<Rightarrow> int \<Rightarrow> 'a gp_Pnt list \<Rightarrow> 'a list \<Rightarrow> 'a list option" where
  "copy_nodes loc base i [] vs = Some vs"
| "copy_nodes loc base i (node # rest) vs =
     (case (case loc of None \<Rightarrow> node | Some trsf \<Rightarrow> trsf node) of (x, y, z) \<Rightarrow>
        let vi = global_index base i
        in if unat (vi * 3 + 0) < length vs \<and> unat (vi * 3 + 1) < length vs
              \<and> unat (vi * 3 + 2) < length vs
           then copy_nodes loc base (i + 1) rest
                  (vs[unat (vi * 3 + 0) := x, unat (vi * 3 + 1) := y, unat (vi * 3 + 2) := z])
           else None)"

text \<open>\<open>v[i] += d\<close>, and the body of \<open>for (int vi : {n1, n2, n3})\<close>.\<close>

definition add_at :: "'a::plus list \<Rightarrow> nat \<Rightarrow> 'a \<Rightarrow> 'a list" where
  "add_at ns i d = ns[i := ns ! i + d]"

definition add_normal :: "32 word \<Rightarrow> 'a::plus gp_Pnt \<Rightarrow> 'a list \<Rightarrow> int \<Rightarrow> 'a list option" where
  "add_normal base fn ns vi =
     (case fn of (fx, fy, fz) \<Rightarrow>
        let idx = global_index base vi * 3
        in if unat (idx + 0) < length ns \<and> unat (idx + 1) < length ns
              \<and> unat (idx + 2) < length ns
           then Some (add_at (add_at (add_at ns (unat (idx + 0)) fx) (unat (idx + 1)) fy)
                        (unat (idx + 2)) fz)
           else None)"

text \<open>
  The triple pushed for one source triangle: \<open>n1\<close> and \<open>n2\<close> swapped on a reversed face,
  then the global index of each.
\<close>

definition wound :: "bool \<Rightarrow> int \<times> int \<times> int \<Rightarrow> int \<times> int \<times> int" where
  "wound face_reversed t =
     (case t of (n1, n2, n3) \<Rightarrow> if face_reversed then (n2, n1, n3) else (n1, n2, n3))"

definition face_normal :: "'a::{minus,times} list \<Rightarrow> nat \<Rightarrow> nat \<Rightarrow> nat \<Rightarrow> 'a gp_Pnt" where
  "face_normal vs i1 i2 i3 =
     Crossed
       (vs ! i2 - vs ! i1, vs ! (i2 + 1) - vs ! (i1 + 1), vs ! (i2 + 2) - vs ! (i1 + 2))
       (vs ! i3 - vs ! i1, vs ! (i3 + 1) - vs ! (i1 + 1), vs ! (i3 + 2) - vs ! (i1 + 2))"

text \<open>The body of the triangle loop. \<open>i1\<close>, \<open>i2\<close>, \<open>i3\<close> are \<open>size_t\<close>, so \<open>i1 + 2\<close> does not wrap.\<close>

definition emit_triangle ::
  "bool \<Rightarrow> 32 word \<Rightarrow> 'a::{plus,minus,times} CgMeshData \<Rightarrow> int \<times> int \<times> int
     \<Rightarrow> 'a CgMeshData option" where
  "emit_triangle face_reversed base out t =
     (case wound face_reversed t of (n1, n2, n3) \<Rightarrow>
        let out1 = out\<lparr>indices := indices out
                      @ [global_index base n1, global_index base n2, global_index base n3]\<rparr>;
            i1 = unat (global_index base n1 * 3);
            i2 = unat (global_index base n2 * 3);
            i3 = unat (global_index base n3 * 3);
            vs = vertices out1
        in if i1 + 2 < length vs \<and> i2 + 2 < length vs \<and> i3 + 2 < length vs
           then
             let fn = face_normal vs i1 i2 i3
             in Option.bind (add_normal base fn (normals out1) n1) (\<lambda>ns1.
                Option.bind (add_normal base fn ns1 n2) (\<lambda>ns2.
                Option.bind (add_normal base fn ns2 n3) (\<lambda>ns3.
                Some (out1\<lparr>normals := ns3\<rparr>))))
           else None)"

fun copy_triangles ::
  "bool \<Rightarrow> 32 word \<Rightarrow> (int \<times> int \<times> int) list \<Rightarrow> 'a::{plus,minus,times} CgMeshData
     \<Rightarrow> 'a CgMeshData option" where
  "copy_triangles face_reversed base [] out = Some out"
| "copy_triangles face_reversed base (t # ts) out =
     (case emit_triangle face_reversed base out t of
        None \<Rightarrow> None
      | Some out' \<Rightarrow> copy_triangles face_reversed base ts out')"

text \<open>
  \<open>append_triangulation\<close>: \<open>base\<close> from the vertex count, both buffers resized with
  zeros, the node loop, the triangle loop. \<open>indices.reserve\<close> changes no content.
\<close>

definition append_triangulation ::
  "'a::{zero,plus,minus,times} CgMeshData \<Rightarrow> 'a Poly_Triangulation \<Rightarrow> 'a TopLoc_Location
     \<Rightarrow> bool \<Rightarrow> 'a CgMeshData option" where
  "append_triangulation out tri loc face_reversed =
     (let nNodes = length (Nodes tri);
          base = (of_nat (length (vertices out) div 3) :: 32 word);
          vs0 = vertices out @ replicate (nNodes * 3) 0;
          ns0 = normals out @ replicate (nNodes * 3) 0
      in case copy_nodes loc base 1 (Nodes tri) vs0 of
           None \<Rightarrow> None
         | Some vs \<Rightarrow>
             copy_triangles face_reversed base (Triangles tri)
               (out\<lparr>vertices := vs, normals := ns0\<rparr>))"

text \<open>
  \<open>normalize_normals\<close>. Here the coordinate type also has \<open>/\<close> and \<open><\<close>, again with no
  law assumed of them. \<open>std::sqrt\<close> and the value of the literal \<open>1e-12\<close> are the
  parameters \<open>std_sqrt\<close> and \<open>eps\<close>, so nothing is assumed of them either: what is proved
  of \<open>normalize_normals\<close> for all of them holds of the \<open>double\<close> operations the code runs.
\<close>

definition normalize_at ::
  "('a \<Rightarrow> 'a) \<Rightarrow> 'a \<Rightarrow> 'a::{plus,times,inverse,ord} list \<Rightarrow> nat \<Rightarrow> 'a list option" where
  "normalize_at std_sqrt eps ns i =
     (if i * 3 + 2 < length ns
      then
        let nx = ns ! (i * 3 + 0); ny = ns ! (i * 3 + 1); nz = ns ! (i * 3 + 2);
            len = std_sqrt (nx * nx + ny * ny + nz * nz)
        in Some (if len > eps
                 then ns[i * 3 + 0 := nx / len, i * 3 + 1 := ny / len, i * 3 + 2 := nz / len]
                 else ns)
      else None)"

function normalize_loop ::
  "('a \<Rightarrow> 'a) \<Rightarrow> 'a \<Rightarrow> nat \<Rightarrow> nat \<Rightarrow> 'a::{plus,times,inverse,ord} list \<Rightarrow> 'a list option" where
  "normalize_loop std_sqrt eps i nVerts ns =
     (if i < nVerts
      then case normalize_at std_sqrt eps ns i of
             None \<Rightarrow> None
           | Some ns' \<Rightarrow> normalize_loop std_sqrt eps (i + 1) nVerts ns'
      else Some ns)"
  by pat_completeness auto
termination
  by (relation "measure (\<lambda>(std_sqrt, eps, i, nVerts, ns). nVerts - i)") auto

declare normalize_loop.simps [simp del]

definition normalize_normals ::
  "('a \<Rightarrow> 'a) \<Rightarrow> 'a \<Rightarrow> 'a::{plus,times,inverse,ord} CgMeshData \<Rightarrow> 'a CgMeshData option" where
  "normalize_normals std_sqrt eps out =
     map_option (\<lambda>ns. out\<lparr>normals := ns\<rparr>)
       (normalize_loop std_sqrt eps 0 (length (vertices out) div 3) (normals out))"

text \<open>
  The face loop of \<open>cg_shape_tessellate\<close>. Of a face it reads
  \<open>BRep_Tool::Triangulation(face, loc)\<close> (\<open>None\<close> when \<open>tri.IsNull()\<close>), the location and
  whether \<open>face.Orientation() == TopAbs_REVERSED\<close>.
\<close>

record 'a TopoDS_Face =
  Triangulation :: "'a Poly_Triangulation option"
  Location :: "'a TopLoc_Location"
  Reversed :: bool

fun merge_faces ::
  "'a::{zero,plus,minus,times} TopoDS_Face list \<Rightarrow> 'a CgMeshData \<Rightarrow> 'a CgMeshData option" where
  "merge_faces [] out = Some out"
| "merge_faces (face # faces) out =
     (case Triangulation face of
        None \<Rightarrow> merge_faces faces out
      | Some tri \<Rightarrow>
          (case append_triangulation out tri (Location face) (Reversed face) of
             None \<Rightarrow> None
           | Some out' \<Rightarrow> merge_faces faces out'))"

text \<open>A triangulation whose triangles name only its own nodes, \<open>1 .. NbNodes()\<close>.\<close>

definition node_ok :: "nat \<Rightarrow> int \<Rightarrow> bool" where
  "node_ok nNodes n \<longleftrightarrow> 1 \<le> n \<and> n \<le> int nNodes"

definition triangle_ok :: "nat \<Rightarrow> int \<times> int \<times> int \<Rightarrow> bool" where
  "triangle_ok nNodes t \<longleftrightarrow>
     (case t of (n1, n2, n3) \<Rightarrow> node_ok nNodes n1 \<and> node_ok nNodes n2 \<and> node_ok nNodes n3)"

definition triangulation_ok :: "'a Poly_Triangulation \<Rightarrow> bool" where
  "triangulation_ok tri \<longleftrightarrow> list_all (triangle_ok (length (Nodes tri))) (Triangles tri)"

definition faces_ok :: "'a TopoDS_Face list \<Rightarrow> bool" where
  "faces_ok faces \<longleftrightarrow>
     list_all (\<lambda>face. case Triangulation face of None \<Rightarrow> True | Some tri \<Rightarrow> triangulation_ok tri)
       faces"

section \<open>The C API (cam\_geometry.h, cam\_geometry.cpp)\<close>

datatype CgError =
  CG_OK
  | CG_ERR_FILE_NOT_FOUND
  | CG_ERR_PARSE_FAILED
  | CG_ERR_NULL_HANDLE
  | CG_ERR_INVALID_ARG
  | CG_ERR_OCCT_EXCEPTION
  | CG_ERR_NO_RESULT

record 'a CgBbox =
  xmin :: 'a
  ymin :: 'a
  zmin :: 'a
  xmax :: 'a
  ymax :: 'a
  zmax :: 'a

text \<open>
  The process state of the API: shapes of the kernel's type \<open>'s\<close> in the registry, flat
  mesh buffers in the mesh store. \<open>'a\<close> stands for \<open>double\<close> throughout.
\<close>

type_synonym ('s, 'a) api_state = "('s, 'a Poly_Triangulation, 'a CgMeshData) cg_state"

text \<open>
  A call into the geometry kernel either returns or throws. The kernel is a parameter of
  each operation that calls it: \<open>STEPControl_Reader\<close> with \<open>ShapeFix_Shape\<close>,
  \<open>RWStl::ReadFile\<close>, \<open>BRepBndLib::AddOptimal\<close>, and \<open>BRepMesh_IncrementalMesh\<close> with
  the face explorer.
\<close>

datatype exn =
  Standard_Failure string
  | Std_out_of_range string
  | Std_exception string
  | Unknown_exception

datatype 'r outcome = Throws exn | Returns 'r

datatype 's step_read = ReadFailed | NoRoots | Healed 's

definition quoted :: "string \<Rightarrow> string" where
  "quoted p = [CHR 0x27] @ p @ [CHR 0x27]"

definition step_catch :: "exn \<Rightarrow> string" where
  "step_catch e =
     (case e of
        Standard_Failure msg \<Rightarrow> ''STEP exception: '' @ msg
      | Std_out_of_range what \<Rightarrow> ''STEP std::exception: '' @ what
      | Std_exception what \<Rightarrow> ''STEP std::exception: '' @ what
      | Unknown_exception \<Rightarrow> ''STEP: unknown exception'')"

definition cg_load_step ::
  "(string \<Rightarrow> 's step_read outcome) \<Rightarrow> string option \<Rightarrow> ('s, 'a) api_state
     \<Rightarrow> handle \<times> ('s, 'a) api_state" where
  "cg_load_step reader path st =
     (case path of
        None \<Rightarrow> (CG_NULL_ID, set_last_error ''cg_load_step: null path'' st)
      | Some p \<Rightarrow>
          (case reader p of
             Returns ReadFailed \<Rightarrow>
               (CG_NULL_ID, set_last_error (''STEP: failed to read '' @ quoted p) st)
           | Returns NoRoots \<Rightarrow>
               (CG_NULL_ID, set_last_error ''STEP: no transferable roots found'' st)
           | Returns (Healed healed) \<Rightarrow> registry_store_shape healed st
           | Throws e \<Rightarrow> (CG_NULL_ID, set_last_error (step_catch e) st)))"

definition stl_catch :: "exn \<Rightarrow> string" where
  "stl_catch e =
     (case e of
        Standard_Failure msg \<Rightarrow> ''STL exception: '' @ msg
      | Std_out_of_range what \<Rightarrow> ''STL std::exception: '' @ what
      | Std_exception what \<Rightarrow> ''STL std::exception: '' @ what
      | Unknown_exception \<Rightarrow> ''STL: unknown exception'')"

text \<open>
  Operations that run the mesh assembly return \<open>None\<close> when the assembly reads or writes
  past the end of a buffer.
\<close>

definition cg_load_stl ::
  "('a \<Rightarrow> 'a) \<Rightarrow> 'a \<Rightarrow> (string \<Rightarrow> 'a Poly_Triangulation option outcome) \<Rightarrow> string option
     \<Rightarrow> ('s, 'a::{zero,plus,minus,times,inverse,ord}) api_state
     \<Rightarrow> (handle \<times> ('s, 'a) api_state) option" where
  "cg_load_stl std_sqrt eps reader path st =
     (case path of
        None \<Rightarrow> Some (CG_NULL_ID, set_last_error ''cg_load_stl: null path'' st)
      | Some p \<Rightarrow>
          (case reader p of
             Returns None \<Rightarrow>
               Some (CG_NULL_ID, set_last_error (''STL: failed to read '' @ quoted p) st)
           | Returns (Some tri) \<Rightarrow>
               Option.bind (append_triangulation empty_mesh tri None False) (\<lambda>data.
               Option.bind (normalize_normals std_sqrt eps data) (\<lambda>data'.
               Some (mesh_store_insert data' st)))
           | Throws e \<Rightarrow> Some (CG_NULL_ID, set_last_error (stl_catch e) st)))"

definition bbox_catch :: "exn \<Rightarrow> string" where
  "bbox_catch e =
     (case e of
        Std_out_of_range what \<Rightarrow> ''cg_shape_bounding_box: invalid shape ID''
      | Standard_Failure msg \<Rightarrow> ''BBox exception: '' @ msg
      | Std_exception what \<Rightarrow> ''BBox: unknown exception''
      | Unknown_exception \<Rightarrow> ''BBox: unknown exception'')"

definition zero_bbox :: "'a::zero CgBbox" where
  "zero_bbox = \<lparr>xmin = 0, ymin = 0, zmin = 0, xmax = 0, ymax = 0, zmax = 0\<rparr>"

definition cg_shape_bounding_box ::
  "('s \<Rightarrow> 'a CgBbox option outcome) \<Rightarrow> handle \<Rightarrow> ('s, 'a::zero) api_state
     \<Rightarrow> 'a CgBbox \<times> ('s, 'a) api_state" where
  "cg_shape_bounding_box add_optimal h st =
     (if h = CG_NULL_ID
      then (zero_bbox, set_last_error ''cg_shape_bounding_box: null handle'' st)
      else
        (case registry_get_shape h st of
           Inl NotFound \<Rightarrow>
             (zero_bbox,
              set_last_error (bbox_catch (Std_out_of_range ''HandleRegistry: invalid shape ID'')) st)
         | Inr shape \<Rightarrow>
             (case add_optimal shape of
                Returns None \<Rightarrow>
                  (zero_bbox, set_last_error ''cg_shape_bounding_box: empty/void shape'' st)
              | Returns (Some box) \<Rightarrow> (box, st)
              | Throws e \<Rightarrow> (zero_bbox, set_last_error (bbox_catch e) st))))"

definition tessellate_catch :: "exn \<Rightarrow> string" where
  "tessellate_catch e =
     (case e of
        Std_out_of_range what \<Rightarrow> ''cg_shape_tessellate: invalid shape ID''
      | Standard_Failure msg \<Rightarrow> ''Tessellate exception: '' @ msg
      | Std_exception what \<Rightarrow> ''Tessellate: unknown exception''
      | Unknown_exception \<Rightarrow> ''Tessellate: unknown exception'')"

text \<open>
  The mesher returns \<open>None\<close> when \<open>mesher.IsDone()\<close> is false, and otherwise the faces of
  the shape in the explorer's order.
\<close>

definition cg_shape_tessellate ::
  "('a \<Rightarrow> 'a) \<Rightarrow> 'a \<Rightarrow> ('s \<Rightarrow> 'a \<Rightarrow> 'a \<Rightarrow> 'a TopoDS_Face list option outcome) \<Rightarrow> handle
     \<Rightarrow> 'a \<Rightarrow> 'a \<Rightarrow> ('s, 'a::{zero,plus,minus,times,inverse,ord}) api_state
     \<Rightarrow> (handle \<times> ('s, 'a) api_state) option" where
  "cg_shape_tessellate std_sqrt eps mesher h chord_tol angle_tol st =
     (if h = CG_NULL_ID
      then Some (CG_NULL_ID, set_last_error ''cg_shape_tessellate: null handle'' st)
      else
        (case registry_get_shape h st of
           Inl NotFound \<Rightarrow>
             Some (CG_NULL_ID,
               set_last_error
                 (tessellate_catch (Std_out_of_range ''HandleRegistry: invalid shape ID'')) st)
         | Inr shape \<Rightarrow>
             (case mesher shape chord_tol angle_tol of
                Throws e \<Rightarrow> Some (CG_NULL_ID, set_last_error (tessellate_catch e) st)
              | Returns None \<Rightarrow>
                  Some (CG_NULL_ID,
                    set_last_error ''cg_shape_tessellate: mesher did not complete'' st)
              | Returns (Some faces) \<Rightarrow>
                  Option.bind (merge_faces faces empty_mesh) (\<lambda>data.
                    if indices data = []
                    then Some (CG_NULL_ID,
                           set_last_error ''cg_shape_tessellate: no triangles produced'' st)
                    else Option.bind (normalize_normals std_sqrt eps data) (\<lambda>data'.
                           Some (mesh_store_insert data' st))))))"

text \<open>The count queries leave the state as it is.\<close>

definition cg_mesh_vertex_count ::
  "handle \<Rightarrow> ('s, 'a) api_state \<Rightarrow> nat \<times> ('s, 'a) api_state" where
  "cg_mesh_vertex_count h st =
     (if h = CG_NULL_ID then (0, st)
      else case mesh_store_get h st of
             None \<Rightarrow> (0, st)
           | Some mesh \<Rightarrow> (length (vertices mesh) div 3, st))"

definition cg_mesh_triangle_count ::
  "handle \<Rightarrow> ('s, 'a) api_state \<Rightarrow> nat \<times> ('s, 'a) api_state" where
  "cg_mesh_triangle_count h st =
     (if h = CG_NULL_ID then (0, st)
      else case mesh_store_get h st of
             None \<Rightarrow> (0, st)
           | Some mesh \<Rightarrow> (length (indices mesh) div 3, st))"

text \<open>
  A destination pointer is \<open>None\<close> when null and otherwise the caller's array (non-null
  where \<open>the\<close> reads it). \<open>memcpy\<close> of more elements than the array holds writes past
  its end: \<open>None\<close>.
\<close>

definition memcpy :: "'a list \<Rightarrow> 'a list \<Rightarrow> 'a list option" where
  "memcpy dst src =
     (if length src \<le> length dst then Some (src @ drop (length src) dst) else None)"

definition cg_mesh_copy_vertices ::
  "handle \<Rightarrow> 'a list option \<Rightarrow> ('s, 'a) api_state
     \<Rightarrow> (CgError \<times> 'a list option \<times> ('s, 'a) api_state) option" where
  "cg_mesh_copy_vertices h out_vertices st =
     (if h = CG_NULL_ID \<or> out_vertices = None
      then Some (CG_ERR_NULL_HANDLE, out_vertices,
             set_last_error ''cg_mesh_copy_vertices: null argument'' st)
      else
        (case mesh_store_get h st of
           None \<Rightarrow>
             Some (CG_ERR_NULL_HANDLE, out_vertices,
               set_last_error ''cg_mesh_copy_vertices: invalid mesh ID'' st)
         | Some mesh \<Rightarrow>
             map_option (\<lambda>buf. (CG_OK, Some buf, st))
               (memcpy (the out_vertices) (vertices mesh))))"

definition cg_mesh_copy_normals ::
  "handle \<Rightarrow> 'a list option \<Rightarrow> ('s, 'a) api_state
     \<Rightarrow> (CgError \<times> 'a list option \<times> ('s, 'a) api_state) option" where
  "cg_mesh_copy_normals h out_normals st =
     (if h = CG_NULL_ID \<or> out_normals = None
      then Some (CG_ERR_NULL_HANDLE, out_normals,
             set_last_error ''cg_mesh_copy_normals: null argument'' st)
      else
        (case mesh_store_get h st of
           None \<Rightarrow>
             Some (CG_ERR_NULL_HANDLE, out_normals,
               set_last_error ''cg_mesh_copy_normals: invalid mesh ID'' st)
         | Some mesh \<Rightarrow>
             map_option (\<lambda>buf. (CG_OK, Some buf, st))
               (memcpy (the out_normals) (normals mesh))))"

definition cg_mesh_copy_indices ::
  "handle \<Rightarrow> 32 word list option \<Rightarrow> ('s, 'a) api_state
     \<Rightarrow> (CgError \<times> 32 word list option \<times> ('s, 'a) api_state) option" where
  "cg_mesh_copy_indices h out_indices st =
     (if h = CG_NULL_ID \<or> out_indices = None
      then Some (CG_ERR_NULL_HANDLE, out_indices,
             set_last_error ''cg_mesh_copy_indices: null argument'' st)
      else
        (case mesh_store_get h st of
           None \<Rightarrow>
             Some (CG_ERR_NULL_HANDLE, out_indices,
               set_last_error ''cg_mesh_copy_indices: invalid mesh ID'' st)
         | Some mesh \<Rightarrow>
             map_option (\<lambda>buf. (CG_OK, Some buf, st))
               (memcpy (the out_indices) (indices mesh))))"

section \<open>Statements\<close>

text \<open>
  Predicates and functions the theorems are stated with. \<open>issued_below n k\<close>: the two
  counters stand at \<open>1 + n\<close> and \<open>1 + k\<close> and every live key was drawn from its counter.
\<close>

definition issued_below :: "nat \<Rightarrow> nat \<Rightarrow> ('s, 'm, 'd) cg_state \<Rightarrow> bool" where
  "issued_below n k st \<longleftrightarrow>
     next_id (registry st) = 1 + of_nat n \<and> g_mesh_next_id st = 1 + of_nat k \<and>
     (\<forall>h. shapes (registry st) h \<noteq> None \<or> meshes (registry st) h \<noteq> None
        \<longrightarrow> (\<exists>j<n. h = 1 + of_nat j)) \<and>
     (\<forall>h. g_mesh_store st h \<noteq> None \<longrightarrow> (\<exists>j<k. h = 1 + of_nat j))"

text \<open>
  \<open>pushed\<close>: the three indices \<open>append_triangulation\<close> pushes for a source triangle.
  \<open>placed\<close>: the three coordinates it writes for a node.
\<close>

definition pushed :: "bool \<Rightarrow> 32 word \<Rightarrow> int \<times> int \<times> int \<Rightarrow> 32 word list" where
  "pushed face_reversed base t =
     (case wound face_reversed t of (n1, n2, n3) \<Rightarrow>
        [global_index base n1, global_index base n2, global_index base n3])"

definition placed :: "'a TopLoc_Location \<Rightarrow> 'a gp_Pnt \<Rightarrow> 'a list" where
  "placed loc node =
     (case (case loc of None \<Rightarrow> node | Some trsf \<Rightarrow> trsf node) of (x, y, z) \<Rightarrow> [x, y, z])"

text \<open>
  \<open>mesh_ok\<close>: the invariant of a mesh buffer. The vertex and normal arrays have one
  length, a multiple of 3, and every index names a vertex.
\<close>

definition mesh_ok :: "'a CgMeshData \<Rightarrow> bool" where
  "mesh_ok out \<longleftrightarrow>
     length (normals out) = length (vertices out) \<and> 3 dvd length (vertices out)
     \<and> list_all (\<lambda>g. unat g < length (vertices out) div 3) (indices out)"

text \<open>
  \<open>tessellate_fails\<close>: the failure cases of \<open>cg_shape_tessellate\<close>, read off its
  arguments: the null handle, an id absent from the registry, a mesher that throws or does
  not complete, and a merge that produces no triangle.
\<close>

definition tessellate_fails ::
  "('s \<Rightarrow> 'a \<Rightarrow> 'a \<Rightarrow> 'a TopoDS_Face list option outcome) \<Rightarrow> handle \<Rightarrow> 'a \<Rightarrow> 'a
     \<Rightarrow> ('s, 'a::{zero,plus,minus,times}) api_state \<Rightarrow> bool" where
  "tessellate_fails mesher h chord_tol angle_tol st \<longleftrightarrow>
     (if h = CG_NULL_ID then True
      else case shapes (registry st) h of
             None \<Rightarrow> True
           | Some shape \<Rightarrow>
               (case mesher shape chord_tol angle_tol of
                  Throws e \<Rightarrow> True
                | Returns None \<Rightarrow> True
                | Returns (Some faces) \<Rightarrow>
                    (case merge_faces faces empty_mesh of
                       None \<Rightarrow> False
                     | Some data \<Rightarrow> indices data = [])))"

text \<open>
  Concrete data. Patch A is one triangle on three nodes; \<open>meshA\<close> is the buffer after A
  alone, \<open>meshAB\<close> after the same triangle again, moved by 10 along x, on a reversed
  face. Concrete coordinates are integers or, where a quotient or a square root is taken,
  real numbers that are 0, 1 or a power of two.
\<close>

definition patchA :: "int Poly_Triangulation" where
  "patchA = \<lparr>Nodes = [(0, 0, 0), (1, 0, 0), (0, 1, 0)], Triangles = [(1, 2, 3)]\<rparr>"

definition shift10 :: "int gp_Pnt \<Rightarrow> int gp_Pnt" where
  "shift10 p = (case p of (x, y, z) \<Rightarrow> (x + 10, y, z))"

definition meshA :: "int CgMeshData" where
  "meshA = \<lparr>vertices = [0, 0, 0, 1, 0, 0, 0, 1, 0], normals = [0, 0, 1, 0, 0, 1, 0, 0, 1],
     indices = [0, 1, 2]\<rparr>"

definition meshAB :: "int CgMeshData" where
  "meshAB = \<lparr>vertices = [0, 0, 0, 1, 0, 0, 0, 1, 0, 10, 0, 0, 11, 0, 0, 10, 1, 0],
     normals = [0, 0, 1, 0, 0, 1, 0, 0, 1, 0, 0, - 1, 0, 0, - 1, 0, 0, - 1],
     indices = [0, 1, 2, 4, 3, 5]\<rparr>"

definition lone_node :: "int Poly_Triangulation" where
  "lone_node = \<lparr>Nodes = [(1, 2, 3)], Triangles = []\<rparr>"

definition zero_node_patch :: "int Poly_Triangulation" where
  "zero_node_patch = \<lparr>Nodes = [(0, 0, 0), (1, 0, 0), (0, 1, 0)], Triangles = [(0, 1, 2)]\<rparr>"

definition no_faces_mesher :: "string \<Rightarrow> real \<Rightarrow> real \<Rightarrow> real TopoDS_Face list option outcome" where
  "no_faces_mesher shape chord_tol angle_tol = Returns (Some [])"

definition one_shape_state :: "(string, real) api_state" where
  "one_shape_state = snd (registry_store_shape ''box'' initial_state)"

definition triangle_mesh :: "real CgMeshData" where
  "triangle_mesh = \<lparr>vertices = [0, 0, 0, 1, 0, 0, 0, 1, 0], normals = [0, 0, 1, 0, 0, 1, 0, 0, 1],
     indices = [0, 1, 2]\<rparr>"

definition one_mesh_state :: "(string, real) api_state" where
  "one_mesh_state = snd (mesh_store_insert triangle_mesh initial_state)"

definition busy_state :: "(string, string, string) cg_state" where
  "busy_state = run_ops [Store_shape ''a'', Mesh_store_insert ''x''] initial_state"

definition later_ops :: "(string, string, string) store_op list" where
  "later_ops = [Store_mesh ''m'', Free_shape 1, Mesh_store_erase 1, Store_shape ''c'']"

definition two_faces :: "real TopoDS_Face list" where
  "two_faces =
     [\<lparr>Triangulation = Some \<lparr>Nodes = [(0, 0, 0), (1, 0, 0), (0, 1, 0)], Triangles = [(1, 2, 3)]\<rparr>,
        Location = None, Reversed = False\<rparr>,
      \<lparr>Triangulation = None, Location = None, Reversed = False\<rparr>,
      \<lparr>Triangulation = Some \<lparr>Nodes = [(0, 0, 0), (1, 0, 0), (0, 1, 0)], Triangles = [(1, 2, 3)]\<rparr>,
        Location = None, Reversed = True\<rparr>]"

definition small_triangle :: "'a::zero \<Rightarrow> 'a Poly_Triangulation" where
  "small_triangle a = \<lparr>Nodes = [(0, 0, 0), (a, 0, 0), (0, a, 0)], Triangles = [(1, 2, 3)]\<rparr>"

definition unit_face :: "real TopoDS_Face" where
  "unit_face =
     \<lparr>Triangulation = Some \<lparr>Nodes = [(0, 0, 0), (1, 0, 0), (0, 1, 0)], Triangles = [(1, 2, 3)]\<rparr>,
      Location = None, Reversed = False\<rparr>"

definition unit_face_mesher :: "string \<Rightarrow> real \<Rightarrow> real \<Rightarrow> real TopoDS_Face list option outcome" where
  "unit_face_mesher shape chord_tol angle_tol = Returns (Some [unit_face])"

text \<open>
  \<open>tiny_mesh a s\<close>: the buffer of the one triangle \<open>small_triangle a\<close> with \<open>s\<close> as the
  z component of every normal. \<open>tiny_stl_reader\<close>: \<open>RWStl::ReadFile\<close> on a file that holds
  this triangle for \<open>a = 1 / 2 ^ 20\<close>.
\<close>

definition tiny_mesh :: "'a::zero \<Rightarrow> 'a \<Rightarrow> 'a CgMeshData" where
  "tiny_mesh a s = \<lparr>vertices = [0, 0, 0, a, 0, 0, 0, a, 0], normals = [0, 0, s, 0, 0, s, 0, 0, s],
     indices = [0, 1, 2]\<rparr>"

definition tiny_stl_reader :: "string \<Rightarrow> real Poly_Triangulation option outcome" where
  "tiny_stl_reader path = Returns (Some (small_triangle (1 / 2 ^ 20)))"

section \<open>Identifiers\<close>

lemmas store_defs =
  registry_store_shape_def store_shape_def registry_store_mesh_def store_mesh_def
  mesh_store_insert_def registry_free_shape_def free_shape_def registry_free_mesh_def
  free_mesh_def mesh_store_erase_def emplace_def initial_state_def new_registry_def
  registry_get_shape_def get_shape_def get_mesh_def mesh_store_get_def
  cg_shape_free_def cg_mesh_free_def CG_NULL_ID_def

lemma registry_ids_run:
  "registry_ids (issued ops st) =
     map (\<lambda>k. next_id (registry st) + of_nat k) [0..<registry_stores ops]"
proof (induction ops arbitrary: st)
  case Nil
  then show ?case by (simp add: registry_ids_def)
next
  case (Cons x xs)
  show ?case
  proof (cases x)
    case (Store_shape s)
    then show ?thesis
      using Cons.IH [of "snd (registry_store_shape s st)"]
      by (simp add: registry_ids_def registry_store_shape_def store_shape_def Let_def
          map_upt_Suc add.assoc del: upt_Suc)
  next
    case (Store_mesh m)
    then show ?thesis
      using Cons.IH [of "snd (registry_store_mesh m st)"]
      by (simp add: registry_ids_def registry_store_mesh_def store_mesh_def Let_def
          map_upt_Suc add.assoc del: upt_Suc)
  next
    case (Mesh_store_insert d)
    then show ?thesis
      using Cons.IH [of "snd (mesh_store_insert d st)"]
      by (simp add: registry_ids_def mesh_store_insert_def Let_def)
  next
    case (Free_shape i)
    then show ?thesis
      using Cons.IH [of "registry_free_shape i st"]
      by (simp add: registry_free_shape_def free_shape_def)
  next
    case (Free_mesh i)
    then show ?thesis
      using Cons.IH [of "registry_free_mesh i st"]
      by (simp add: registry_free_mesh_def free_mesh_def)
  next
    case (Mesh_store_erase i)
    then show ?thesis
      using Cons.IH [of "snd (mesh_store_erase i st)"]
      by (simp add: mesh_store_erase_def)
  qed
qed

lemma mesh_buffer_ids_run:
  "mesh_buffer_ids (issued ops st) =
     map (\<lambda>k. g_mesh_next_id st + of_nat k) [0..<mesh_buffer_stores ops]"
proof (induction ops arbitrary: st)
  case Nil
  then show ?case by (simp add: mesh_buffer_ids_def)
next
  case (Cons x xs)
  show ?case
  proof (cases x)
    case (Store_shape s)
    then show ?thesis
      using Cons.IH [of "snd (registry_store_shape s st)"]
      by (simp add: mesh_buffer_ids_def registry_store_shape_def store_shape_def Let_def)
  next
    case (Store_mesh m)
    then show ?thesis
      using Cons.IH [of "snd (registry_store_mesh m st)"]
      by (simp add: mesh_buffer_ids_def registry_store_mesh_def store_mesh_def Let_def)
  next
    case (Mesh_store_insert d)
    then show ?thesis
      using Cons.IH [of "snd (mesh_store_insert d st)"]
      by (simp add: mesh_buffer_ids_def mesh_store_insert_def Let_def
          map_upt_Suc add.assoc del: upt_Suc)
  next
    case (Free_shape i)
    then show ?thesis
      using Cons.IH [of "registry_free_shape i st"]
      by (simp add: registry_free_shape_def)
  next
    case (Free_mesh i)
    then show ?thesis
      using Cons.IH [of "registry_free_mesh i st"]
      by (simp add: registry_free_mesh_def)
  next
    case (Mesh_store_erase i)
    then show ?thesis
      using Cons.IH [of "snd (mesh_store_erase i st)"]
      by (simp add: mesh_store_erase_def)
  qed
qed

lemma counter_ids_distinct:
  "n \<le> 2 ^ 64 \<Longrightarrow> distinct (map (\<lambda>k. (c::handle) + of_nat k) [0..<n])"
  by (auto simp add: distinct_map inj_on_def word_of_nat_eq_iff take_bit_nat_eq_self)

lemma counter_ids_nonzero:
  "n < 2 ^ 64 \<Longrightarrow> (0::handle) \<notin> set (map (\<lambda>k. 1 + of_nat k) [0..<n])"
proof -
  assume n: "n < 2 ^ 64"
  have "(1::handle) + of_nat k \<noteq> 0" if "k < n" for k
  proof -
    have "(1::handle) + of_nat k = of_nat (Suc k)" by simp
    moreover have "(of_nat (Suc k) :: handle) \<noteq> 0"
      using that n by (simp add: word_of_nat_eq_0_iff del: of_nat_Suc) (auto dest: dvd_imp_le)
    ultimately show ?thesis by simp
  qed
  then show ?thesis by auto
qed

text \<open>
  Claim C1, as amended. The ids drawn from one counter are pairwise distinct and never 0,
  whatever stores and frees are interleaved, while fewer than \<open>2 ^ 64\<close> ids have been
  drawn from it: the registry's counter serves shapes and registry meshes, so a shape id
  never equals a registry mesh id, and no id comes back after a free. The mesh store of
  the C API draws from a counter of its own.
\<close>

theorem ids_unique_per_counter:
  assumes "registry_stores ops < 2 ^ 64" and "mesh_buffer_stores ops < 2 ^ 64"
  shows "distinct (registry_ids (issued ops initial_state))
       \<and> distinct (mesh_buffer_ids (issued ops initial_state))
       \<and> CG_NULL_ID \<notin> set (registry_ids (issued ops initial_state))
       \<and> CG_NULL_ID \<notin> set (mesh_buffer_ids (issued ops initial_state))"
proof -
  have r: "registry_ids (issued ops (initial_state :: ('a, 'b, 'c) cg_state)) =
      map (\<lambda>k. 1 + of_nat k) [0..<registry_stores ops]"
    by (simp add: registry_ids_run initial_state_def new_registry_def)
  have m: "mesh_buffer_ids (issued ops (initial_state :: ('a, 'b, 'c) cg_state)) =
      map (\<lambda>k. 1 + of_nat k) [0..<mesh_buffer_stores ops]"
    by (simp add: mesh_buffer_ids_run initial_state_def)
  show ?thesis
    unfolding r m CG_NULL_ID_def
    using assms counter_ids_distinct [of "registry_stores ops" 1]
      counter_ids_distinct [of "mesh_buffer_stores ops" 1]
      counter_ids_nonzero [of "registry_stores ops"]
      counter_ids_nonzero [of "mesh_buffer_stores ops"]
    by simp
qed

theorem ids_unique_per_counter_witness:
  "distinct (registry_ids (issued
      [Store_shape ''a'', Store_mesh ''m'', Free_shape 1, Mesh_store_insert ''d'', Store_shape ''b'']
      (initial_state :: (string, string, string) cg_state)))
   \<and> registry_ids (issued
      [Store_shape ''a'', Store_mesh ''m'', Free_shape 1, Mesh_store_insert ''d'', Store_shape ''b'']
      (initial_state :: (string, string, string) cg_state)) = [1, 2, 3]
   \<and> CG_NULL_ID \<notin> set (mesh_buffer_ids (issued
      [Store_shape ''a'', Store_mesh ''m'', Free_shape 1, Mesh_store_insert ''d'', Store_shape ''b'']
      (initial_state :: (string, string, string) cg_state)))"
  using ids_unique_per_counter [of
      "[Store_shape ''a'', Store_mesh ''m'', Free_shape 1, Mesh_store_insert ''d'', Store_shape ''b'']
        :: (string, string, string) store_op list"]
  by (simp add: store_defs registry_ids_def)

text \<open>
  Claim C1 as stated fails: the first shape stored in the registry and the first mesh buffer
  stored in the mesh store both get the id 1.
\<close>

theorem shape_id_equals_mesh_buffer_id:
  "issued [Store_shape ''box'', Mesh_store_insert ''mesh'']
      (initial_state :: (string, string, string) cg_state)
     = [(ShapeId, 1), (MeshBufferId, 1)]
   \<and> \<not> distinct (map snd (issued [Store_shape ''box'', Mesh_store_insert ''mesh'']
        (initial_state :: (string, string, string) cg_state)))"
  by (simp add: store_defs)

section \<open>Store, get, free\<close>

lemma issued_below_initial: "issued_below 0 0 initial_state"
  by (simp add: issued_below_def initial_state_def new_registry_def)

lemma issued_below_step:
  assumes "issued_below n k st"
  shows "issued_below (n + registry_stores [x]) (k + mesh_buffer_stores [x]) (snd (store_step x st))"
proof (cases x)
  case (Store_shape s)
  then show ?thesis using assms
    by (auto simp add: issued_below_def registry_store_shape_def store_shape_def Let_def emplace_def
        less_Suc_eq split: option.splits if_splits)
next
  case (Store_mesh m)
  then show ?thesis using assms
    by (auto simp add: issued_below_def registry_store_mesh_def store_mesh_def Let_def emplace_def
        less_Suc_eq split: option.splits if_splits)
next
  case (Mesh_store_insert d)
  then show ?thesis using assms
    by (auto simp add: issued_below_def mesh_store_insert_def Let_def emplace_def
        less_Suc_eq split: option.splits if_splits)
next
  case (Free_shape h)
  then show ?thesis using assms
    by (auto simp add: issued_below_def registry_free_shape_def free_shape_def split: if_splits)
next
  case (Free_mesh h)
  then show ?thesis using assms
    by (auto simp add: issued_below_def registry_free_mesh_def free_mesh_def split: if_splits)
next
  case (Mesh_store_erase h)
  then show ?thesis using assms
    by (auto simp add: issued_below_def mesh_store_erase_def split: if_splits)
qed

lemma registry_stores_Cons: "registry_stores (x # xs) = registry_stores [x] + registry_stores xs"
  by (cases x) simp_all

lemma mesh_buffer_stores_Cons:
  "mesh_buffer_stores (x # xs) = mesh_buffer_stores [x] + mesh_buffer_stores xs"
  by (cases x) simp_all

lemma issued_below_run:
  "issued_below n k st \<Longrightarrow>
   issued_below (n + registry_stores ops) (k + mesh_buffer_stores ops) (run_ops ops st)"
proof (induction ops arbitrary: n k st)
  case Nil
  then show ?case by simp
next
  case (Cons x xs)
  from Cons.IH [OF issued_below_step [OF Cons.prems, of x]]
  show ?case
    by (simp add: registry_stores_Cons [of x xs] mesh_buffer_stores_Cons [of x xs] add.assoc)
qed

lemma next_handle_fresh:
  assumes "n < 2 ^ 64" "j < n"
  shows "(1::handle) + of_nat n \<noteq> 1 + of_nat j"
  using assms by (simp add: word_of_nat_eq_iff take_bit_nat_eq_self)

lemma next_handle_nonzero:
  assumes "n < 2 ^ 64 - 1"
  shows "(1::handle) + of_nat n \<noteq> 0"
proof -
  have "(1::handle) + of_nat n = of_nat (Suc n)" by simp
  moreover have "(of_nat (Suc n) :: handle) \<noteq> 0"
    using assms by (simp add: word_of_nat_eq_0_iff del: of_nat_Suc) (auto dest: dvd_imp_le)
  ultimately show ?thesis by simp
qed

lemma reachable_fresh:
  assumes "st = run_ops pre initial_state"
  shows "registry_stores pre < 2 ^ 64 \<Longrightarrow> shapes (registry st) (next_id (registry st)) = None"
    and "registry_stores pre < 2 ^ 64 \<Longrightarrow> meshes (registry st) (next_id (registry st)) = None"
    and "mesh_buffer_stores pre < 2 ^ 64 \<Longrightarrow> g_mesh_store st (g_mesh_next_id st) = None"
    and "registry_stores pre < 2 ^ 64 - 1 \<Longrightarrow> next_id (registry st) \<noteq> 0"
    and "mesh_buffer_stores pre < 2 ^ 64 - 1 \<Longrightarrow> g_mesh_next_id st \<noteq> 0"
proof -
  have inv: "issued_below (registry_stores pre) (mesh_buffer_stores pre) st"
    using issued_below_run [OF issued_below_initial, of pre] assms by simp
  show "registry_stores pre < 2 ^ 64 \<Longrightarrow> shapes (registry st) (next_id (registry st)) = None"
    using inv next_handle_fresh unfolding issued_below_def by metis
  show "registry_stores pre < 2 ^ 64 \<Longrightarrow> meshes (registry st) (next_id (registry st)) = None"
    using inv next_handle_fresh unfolding issued_below_def by metis
  show "mesh_buffer_stores pre < 2 ^ 64 \<Longrightarrow> g_mesh_store st (g_mesh_next_id st) = None"
    using inv next_handle_fresh unfolding issued_below_def by metis
  show "registry_stores pre < 2 ^ 64 - 1 \<Longrightarrow> next_id (registry st) \<noteq> 0"
    using inv next_handle_nonzero unfolding issued_below_def by metis
  show "mesh_buffer_stores pre < 2 ^ 64 - 1 \<Longrightarrow> g_mesh_next_id st \<noteq> 0"
    using inv next_handle_nonzero unfolding issued_below_def by metis
qed

lemma shape_kept:
  "shapes (registry st) h = Some s \<Longrightarrow> Free_shape h \<notin> set ops \<Longrightarrow>
   shapes (registry (run_ops ops st)) h = Some s"
proof (induction ops arbitrary: st)
  case Nil
  then show ?case by simp
next
  case (Cons x xs)
  have "shapes (registry (snd (store_step x st))) h = Some s"
    using Cons.prems
    by (cases x)
      (auto simp add: registry_store_shape_def store_shape_def registry_store_mesh_def
        store_mesh_def mesh_store_insert_def registry_free_shape_def free_shape_def
        registry_free_mesh_def free_mesh_def mesh_store_erase_def Let_def emplace_def
        split: option.splits)
  then show ?case using Cons.IH Cons.prems by simp
qed

lemma mesh_kept:
  "meshes (registry st) h = Some m \<Longrightarrow> Free_mesh h \<notin> set ops \<Longrightarrow>
   meshes (registry (run_ops ops st)) h = Some m"
proof (induction ops arbitrary: st)
  case Nil
  then show ?case by simp
next
  case (Cons x xs)
  have "meshes (registry (snd (store_step x st))) h = Some m"
    using Cons.prems
    by (cases x)
      (auto simp add: registry_store_shape_def store_shape_def registry_store_mesh_def
        store_mesh_def mesh_store_insert_def registry_free_shape_def free_shape_def
        registry_free_mesh_def free_mesh_def mesh_store_erase_def Let_def emplace_def
        split: option.splits)
  then show ?case using Cons.IH Cons.prems by simp
qed

lemma mesh_buffer_kept:
  "g_mesh_store st h = Some d \<Longrightarrow> Mesh_store_erase h \<notin> set ops \<Longrightarrow>
   g_mesh_store (run_ops ops st) h = Some d"
proof (induction ops arbitrary: st)
  case Nil
  then show ?case by simp
next
  case (Cons x xs)
  have "g_mesh_store (snd (store_step x st)) h = Some d"
    using Cons.prems
    by (cases x)
      (auto simp add: registry_store_shape_def store_shape_def registry_store_mesh_def
        store_mesh_def mesh_store_insert_def registry_free_shape_def free_shape_def
        registry_free_mesh_def free_mesh_def mesh_store_erase_def Let_def emplace_def
        split: option.splits)
  then show ?case using Cons.IH Cons.prems by simp
qed

lemma shape_lifecycle:
  assumes fresh: "shapes (registry st) (next_id (registry st)) = None"
    and store: "registry_store_shape s st = (h, st1)"
    and later: "Free_shape h \<notin> set ops"
  shows "registry_get_shape h (run_ops ops st1) = Inr s"
    and "fst (free_shape h (registry (run_ops ops st1)))"
proof -
  have "shapes (registry st1) h = Some s"
    using fresh store
    by (auto simp add: registry_store_shape_def store_shape_def Let_def emplace_def)
  from shape_kept [OF this later]
  show "registry_get_shape h (run_ops ops st1) = Inr s"
    and "fst (free_shape h (registry (run_ops ops st1)))"
    by (simp_all add: registry_get_shape_def get_shape_def free_shape_def)
qed

lemma mesh_lifecycle:
  assumes fresh: "meshes (registry st) (next_id (registry st)) = None"
    and store: "registry_store_mesh m st = (h, st1)"
    and later: "Free_mesh h \<notin> set ops"
  shows "get_mesh (registry (run_ops ops st1)) h = Inr m"
    and "fst (free_mesh h (registry (run_ops ops st1)))"
proof -
  have "meshes (registry st1) h = Some m"
    using fresh store
    by (auto simp add: registry_store_mesh_def store_mesh_def Let_def emplace_def)
  from mesh_kept [OF this later]
  show "get_mesh (registry (run_ops ops st1)) h = Inr m"
    and "fst (free_mesh h (registry (run_ops ops st1)))"
    by (simp_all add: get_mesh_def free_mesh_def)
qed

lemma mesh_buffer_lifecycle:
  assumes fresh: "g_mesh_store st (g_mesh_next_id st) = None"
    and store: "mesh_store_insert d st = (h, st1)"
    and later: "Mesh_store_erase h \<notin> set ops"
  shows "mesh_store_get h (run_ops ops st1) = Some d"
    and "fst (mesh_store_erase h (run_ops ops st1))"
proof -
  have "g_mesh_store st1 h = Some d"
    using fresh store
    by (auto simp add: mesh_store_insert_def Let_def emplace_def)
  from mesh_buffer_kept [OF this later]
  show "mesh_store_get h (run_ops ops st1) = Some d"
    and "fst (mesh_store_erase h (run_ops ops st1))"
    by (simp_all add: mesh_store_get_def mesh_store_erase_def)
qed

lemma after_free_shape:
  "get_shape (snd (free_shape h r)) h = Inl NotFound"
  "free_shape h (snd (free_shape h r)) = (False, snd (free_shape h r))"
  by (simp_all add: get_shape_def free_shape_def)

lemma after_free_mesh:
  "get_mesh (snd (free_mesh h r)) h = Inl NotFound"
  "free_mesh h (snd (free_mesh h r)) = (False, snd (free_mesh h r))"
  by (simp_all add: get_mesh_def free_mesh_def)

lemma after_mesh_store_erase:
  "mesh_store_get h (snd (mesh_store_erase h st)) = None"
  "mesh_store_erase h (snd (mesh_store_erase h st)) = (False, snd (mesh_store_erase h st))"
  by (simp_all add: mesh_store_get_def mesh_store_erase_def)

lemma cg_free_twice:
  "cg_shape_free h (cg_shape_free h st) = cg_shape_free h st"
  "cg_mesh_free h (cg_mesh_free h st) = cg_mesh_free h st"
  by (simp_all add: cg_shape_free_def cg_mesh_free_def registry_free_shape_def free_shape_def
      mesh_store_erase_def)

lemma cg_free_null:
  "cg_shape_free CG_NULL_ID st = st" "cg_mesh_free CG_NULL_ID st = st"
  by (simp_all add: cg_shape_free_def cg_mesh_free_def)

text \<open>
  Claim C2. In a state reached from the initial one by fewer than \<open>2 ^ 64 - 1\<close> stores,
  an object stored under id \<open>h\<close> is what get returns for \<open>h\<close> after any further stores
  and frees that do not free \<open>h\<close>; the first free of \<open>h\<close> removes it; after it get fails
  with \<open>NotFound\<close>, a second free returns false and changes nothing, and the second
  \<open>cg_shape_free\<close> or \<open>cg_mesh_free\<close> leaves the state as the first left it. Freeing the
  null id through the C API changes nothing. This holds for the registry's shapes, its
  meshes and the mesh buffers of the C API.
\<close>

theorem store_get_free_lifecycle:
  assumes reach: "st = run_ops pre initial_state"
    and bound: "registry_stores pre < 2 ^ 64 - 1" "mesh_buffer_stores pre < 2 ^ 64 - 1"
  shows
    "(registry_store_shape s st = (hs, sts) \<and> Free_shape hs \<notin> set ops \<longrightarrow>
        registry_get_shape hs (run_ops ops sts) = Inr s
      \<and> fst (free_shape hs (registry (run_ops ops sts)))
      \<and> registry_get_shape hs (cg_shape_free hs (run_ops ops sts)) = Inl NotFound
      \<and> free_shape hs (registry (cg_shape_free hs (run_ops ops sts)))
          = (False, registry (cg_shape_free hs (run_ops ops sts)))
      \<and> cg_shape_free hs (cg_shape_free hs (run_ops ops sts)) = cg_shape_free hs (run_ops ops sts))
   \<and> (registry_store_mesh m st = (hm, stm) \<and> Free_mesh hm \<notin> set ops \<longrightarrow>
        get_mesh (registry (run_ops ops stm)) hm = Inr m
      \<and> fst (free_mesh hm (registry (run_ops ops stm)))
      \<and> get_mesh (snd (free_mesh hm (registry (run_ops ops stm)))) hm = Inl NotFound
      \<and> free_mesh hm (snd (free_mesh hm (registry (run_ops ops stm))))
          = (False, snd (free_mesh hm (registry (run_ops ops stm)))))
   \<and> (mesh_store_insert d st = (hb, stb) \<and> Mesh_store_erase hb \<notin> set ops \<longrightarrow>
        mesh_store_get hb (run_ops ops stb) = Some d
      \<and> fst (mesh_store_erase hb (run_ops ops stb))
      \<and> mesh_store_get hb (cg_mesh_free hb (run_ops ops stb)) = None
      \<and> mesh_store_erase hb (cg_mesh_free hb (run_ops ops stb))
          = (False, cg_mesh_free hb (run_ops ops stb))
      \<and> cg_mesh_free hb (cg_mesh_free hb (run_ops ops stb)) = cg_mesh_free hb (run_ops ops stb))
   \<and> cg_shape_free CG_NULL_ID st = st
   \<and> cg_mesh_free CG_NULL_ID st = st"
proof -
  have b: "registry_stores pre < 2 ^ 64" "mesh_buffer_stores pre < 2 ^ 64"
    using bound by simp_all
  note fresh = reachable_fresh [OF reach]
  have shape: "registry_get_shape hs (run_ops ops sts) = Inr s
      \<and> fst (free_shape hs (registry (run_ops ops sts)))
      \<and> registry_get_shape hs (cg_shape_free hs (run_ops ops sts)) = Inl NotFound
      \<and> free_shape hs (registry (cg_shape_free hs (run_ops ops sts)))
          = (False, registry (cg_shape_free hs (run_ops ops sts)))
      \<and> cg_shape_free hs (cg_shape_free hs (run_ops ops sts)) = cg_shape_free hs (run_ops ops sts)"
    if store: "registry_store_shape s st = (hs, sts)" and quiet: "Free_shape hs \<notin> set ops"
  proof -
    have "hs = next_id (registry st)"
      using store by (auto simp add: registry_store_shape_def store_shape_def Let_def)
    then have nz: "hs \<noteq> CG_NULL_ID"
      using fresh(4) [OF bound(1)] by (simp add: CG_NULL_ID_def)
    from shape_lifecycle [OF fresh(1) [OF b(1)] store quiet] nz
    show ?thesis
      by (simp add: cg_shape_free_def registry_free_shape_def registry_get_shape_def
          get_shape_def free_shape_def)
  qed
  have mesh: "get_mesh (registry (run_ops ops stm)) hm = Inr m
      \<and> fst (free_mesh hm (registry (run_ops ops stm)))
      \<and> get_mesh (snd (free_mesh hm (registry (run_ops ops stm)))) hm = Inl NotFound
      \<and> free_mesh hm (snd (free_mesh hm (registry (run_ops ops stm))))
          = (False, snd (free_mesh hm (registry (run_ops ops stm))))"
    if store: "registry_store_mesh m st = (hm, stm)" and quiet: "Free_mesh hm \<notin> set ops"
    using mesh_lifecycle [OF fresh(2) [OF b(1)] store quiet] by (simp add: after_free_mesh)
  have buffer: "mesh_store_get hb (run_ops ops stb) = Some d
      \<and> fst (mesh_store_erase hb (run_ops ops stb))
      \<and> mesh_store_get hb (cg_mesh_free hb (run_ops ops stb)) = None
      \<and> mesh_store_erase hb (cg_mesh_free hb (run_ops ops stb))
          = (False, cg_mesh_free hb (run_ops ops stb))
      \<and> cg_mesh_free hb (cg_mesh_free hb (run_ops ops stb)) = cg_mesh_free hb (run_ops ops stb)"
    if store: "mesh_store_insert d st = (hb, stb)" and quiet: "Mesh_store_erase hb \<notin> set ops"
  proof -
    have "hb = g_mesh_next_id st"
      using store by (auto simp add: mesh_store_insert_def Let_def)
    then have nz: "hb \<noteq> CG_NULL_ID"
      using fresh(5) [OF bound(2)] by (simp add: CG_NULL_ID_def)
    from mesh_buffer_lifecycle [OF fresh(3) [OF b(2)] store quiet] nz
    show ?thesis
      by (simp add: cg_mesh_free_def after_mesh_store_erase)
  qed
  from shape mesh buffer cg_free_null [of st] show ?thesis by blast
qed

lemma busy_state_stores:
  "registry_store_shape ''b'' busy_state = (2, snd (registry_store_shape ''b'' busy_state))"
  "registry_store_mesh ''n'' busy_state = (2, snd (registry_store_mesh ''n'' busy_state))"
  "mesh_store_insert ''y'' busy_state = (2, snd (mesh_store_insert ''y'' busy_state))"
  by (simp_all add: busy_state_def store_defs Let_def)

theorem store_get_free_lifecycle_witness:
  "registry_get_shape 2 (run_ops later_ops (snd (registry_store_shape ''b'' busy_state))) = Inr ''b''
   \<and> registry_get_shape 2
        (cg_shape_free 2 (run_ops later_ops (snd (registry_store_shape ''b'' busy_state))))
       = Inl NotFound
   \<and> get_mesh (registry (run_ops later_ops (snd (registry_store_mesh ''n'' busy_state)))) 2
       = Inr ''n''
   \<and> mesh_store_get 2 (run_ops later_ops (snd (mesh_store_insert ''y'' busy_state))) = Some ''y''
   \<and> mesh_store_get 2
        (cg_mesh_free 2 (run_ops later_ops (snd (mesh_store_insert ''y'' busy_state)))) = None
   \<and> cg_shape_free CG_NULL_ID busy_state = busy_state"
proof -
  have q: "Free_shape 2 \<notin> set later_ops" "Free_mesh 2 \<notin> set later_ops"
    "Mesh_store_erase 2 \<notin> set later_ops"
    by (simp_all add: later_ops_def)
  have b: "registry_stores [Store_shape ''a'', Mesh_store_insert ''x''] < 2 ^ 64 - 1"
    "mesh_buffer_stores [Store_shape ''a'', Mesh_store_insert ''x''] < 2 ^ 64 - 1"
    by simp_all
  note t = store_get_free_lifecycle [OF busy_state_def b,
      of "''b''" 2 "snd (registry_store_shape ''b'' busy_state)" later_ops
         "''n''" 2 "snd (registry_store_mesh ''n'' busy_state)"
         "''y''" 2 "snd (mesh_store_insert ''y'' busy_state)"]
  from t busy_state_stores q show ?thesis by simp
qed

section \<open>Index arithmetic\<close>

lemma unat_times3_plus_le:
  "unat ((w::32 word) * 3 + k) \<le> unat w * 3 + unat k"
proof -
  have "unat (w * 3 + k) \<le> unat (w * 3) + unat k"
    by (simp add: unat_word_ariths)
  also have "unat (w * 3) \<le> unat w * 3"
    by (simp add: unat_word_ariths)
  finally show ?thesis by simp
qed

lemma unat_times3_le: "unat ((w::32 word) * 3) \<le> unat w * 3"
  by (simp add: unat_word_ariths)

lemma global_index_Suc: "global_index base (int m + 1) = base + of_nat m"
  by (simp add: global_index_def)

lemma node_ok_nat: "node_ok nNodes n \<Longrightarrow> \<exists>m<nNodes. n = int m + 1"
  by (rule exI [of _ "nat (n - 1)"]) (auto simp add: node_ok_def)

lemma unat_global_index_le: "unat (global_index base (int m + 1)) \<le> unat base + m"
proof -
  have "unat (global_index base (int m + 1)) \<le> unat base + unat (of_nat m :: 32 word)"
    by (simp add: global_index_Suc unat_word_ariths)
  also have "unat (of_nat m :: 32 word) \<le> m"
    by (simp add: unat_of_nat)
  finally show ?thesis by simp
qed

lemma unat_base_le: "unat (of_nat V :: 32 word) \<le> V"
  by (simp add: unat_of_nat)

lemma slot_exact:
  assumes "(V + m) * 3 + k < 2 ^ 32"
  shows "unat (global_index (of_nat V) (int m + 1) * 3 + of_nat k) = (V + m) * 3 + k"
proof -
  have "global_index (of_nat V) (int m + 1) * 3 + of_nat k
      = (of_nat ((V + m) * 3 + k) :: 32 word)"
    by (simp add: global_index_Suc)
  then show ?thesis
    using assms by (simp only: unat_of_nat) simp
qed

lemma global_index_exact:
  assumes "V + m < 2 ^ 32"
  shows "unat (global_index (of_nat V) (int m + 1)) = V + m"
proof -
  have "global_index (of_nat V) (int m + 1) = (of_nat (V + m) :: 32 word)"
    by (simp add: global_index_Suc)
  then show ?thesis
    using assms by (simp only: unat_of_nat) simp
qed

lemma slot_bound:
  assumes "(unat base + m) * 3 + 3 \<le> L" and "unat k < 3"
  shows "unat (global_index base (int m + 1) * 3 + k) < L"
proof -
  have "unat (global_index base (int m + 1) * 3 + k)
      \<le> unat (global_index base (int m + 1)) * 3 + unat k"
    by (rule unat_times3_plus_le)
  also have "\<dots> \<le> (unat base + m) * 3 + unat k"
    using unat_global_index_le [of base m] by simp
  finally show ?thesis using assms by linarith
qed

lemma vertex_slot_bound:
  assumes "(unat base + m) * 3 + 3 \<le> L"
  shows "unat (global_index base (int m + 1) * 3) + 2 < L"
proof -
  have "unat (global_index base (int m + 1) * 3) \<le> unat (global_index base (int m + 1)) * 3"
    by (rule unat_times3_le)
  also have "\<dots> \<le> (unat base + m) * 3"
    using unat_global_index_le [of base m] by simp
  finally show ?thesis using assms by linarith
qed

lemma global_index_value:
  assumes "node_ok nNodes n" and "V + nNodes \<le> 2 ^ 32"
  shows "unat (global_index (of_nat V) n) = V + nat n - 1"
proof -
  from node_ok_nat [OF assms(1)] obtain m where m: "m < nNodes" "n = int m + 1" by auto
  have "unat (global_index (of_nat V) (int m + 1)) = V + m"
    by (rule global_index_exact) (use m assms(2) in linarith)
  then show ?thesis using m by simp
qed

section \<open>The node loop\<close>

lemma copy_nodes_length:
  "copy_nodes loc base i ps vs = Some vs' \<Longrightarrow> length vs' = length vs"
proof (induction ps arbitrary: i vs)
  case Nil
  then show ?case by simp
next
  case (Cons p ps)
  then show ?case
    by (auto simp add: Let_def split: prod.splits if_splits option.splits)
qed

lemma copy_nodes_returns:
  "(unat base + j + length ps) * 3 \<le> length vs \<Longrightarrow>
   \<exists>vs'. copy_nodes loc base (int j + 1) ps vs = Some vs'"
proof (induction ps arbitrary: j vs)
  case Nil
  then show ?case by simp
next
  case (Cons p ps)
  have b: "(unat base + j) * 3 + 3 \<le> length vs"
    using Cons.prems by simp
  have k: "unat (global_index base (int j + 1) * 3) < length vs"
    "unat (global_index base (int j + 1) * 3 + 1) < length vs"
    "unat (global_index base (int j + 1) * 3 + 2) < length vs"
    using slot_bound [OF b, of 0] slot_bound [OF b, of 1] slot_bound [OF b, of 2] by simp_all
  have next_i: "int j + 1 + 1 = int (Suc j) + 1" by simp
  obtain x y z where xyz: "(case loc of None \<Rightarrow> p | Some trsf \<Rightarrow> trsf p) = (x, y, z)"
    by (cases "case loc of None \<Rightarrow> p | Some trsf \<Rightarrow> trsf p") auto
  have "\<exists>vs'. copy_nodes loc base (int (Suc j) + 1) ps
      (vs[unat (global_index base (int j + 1) * 3) := x,
          unat (global_index base (int j + 1) * 3 + 1) := y,
          unat (global_index base (int j + 1) * 3 + 2) := z]) = Some vs'"
    by (rule Cons.IH) (use Cons.prems in simp)
  then show ?case
    using k xyz by (simp add: Let_def next_i del: of_nat_Suc)
qed

lemma length_placed: "length (placed loc node) = 3"
  by (simp add: placed_def split: prod.splits)

lemma length_concat_placed: "length (concat (map (placed loc) ps)) = length ps * 3"
  by (induction ps) (simp_all add: length_placed)

lemma write3:
  assumes "i + 3 \<le> length vs"
  shows "vs[i := x, i + 1 := y, i + 2 := z] = take i vs @ [x, y, z] @ drop (i + 3) vs"
proof (rule nth_equalityI)
  show "length (vs[i := x, i + 1 := y, i + 2 := z]) = length (take i vs @ [x, y, z] @ drop (i + 3) vs)"
    using assms by simp
next
  fix k assume "k < length (vs[i := x, i + 1 := y, i + 2 := z])"
  then have k: "k < length vs" by simp
  consider "k < i" | "k = i" | "k = i + 1" | "k = i + 2" | "i + 3 \<le> k" by linarith
  then show "vs[i := x, i + 1 := y, i + 2 := z] ! k = (take i vs @ [x, y, z] @ drop (i + 3) vs) ! k"
  proof cases
    case 1
    then show ?thesis using k by (simp add: nth_append)
  next
    case 2
    then show ?thesis using k assms by (simp add: nth_append)
  next
    case 3
    then show ?thesis using k assms by (simp add: nth_append)
  next
    case 4
    then show ?thesis using k assms by (simp add: nth_append)
  next
    case 5
    then obtain d where d: "k = i + 3 + d" using le_Suc_ex by blast
    show ?thesis using k assms unfolding d
      by (simp add: nth_append)
  qed
qed

lemma drop_past_write3:
  assumes "i + 3 \<le> length vs"
  shows "drop (i + 3 + r) (take i vs @ [x, y, z] @ drop (i + 3) vs) = drop (i + 3 + r) vs"
proof -
  have l: "length (take i vs @ [x, y, z]) = i + 3" using assms by simp
  have "drop (i + 3 + r) ((take i vs @ [x, y, z]) @ drop (i + 3) vs) = drop r (drop (i + 3) vs)"
    unfolding l [symmetric] by (simp only: drop_append length_drop) simp
  then show ?thesis by (simp add: add.commute)
qed

lemma copy_nodes_exact:
  "(V + j + length ps) * 3 \<le> 2 ^ 32 \<Longrightarrow> (V + j + length ps) * 3 \<le> length vs \<Longrightarrow>
   copy_nodes loc (of_nat V) (int j + 1) ps vs =
     Some (take ((V + j) * 3) vs @ concat (map (placed loc) ps)
            @ drop ((V + j + length ps) * 3) vs)"
proof (induction ps arbitrary: j vs)
  case Nil
  then show ?case by simp
next
  case (Cons p ps)
  have e: "unat (global_index (of_nat V) (int j + 1) * 3 + of_nat k) = (V + j) * 3 + k"
    if "k < 3" for k
    by (rule slot_exact) (use Cons.prems that in simp)
  have k: "unat (global_index (of_nat V) (int j + 1) * 3) = (V + j) * 3"
    "unat (global_index (of_nat V) (int j + 1) * 3 + 1) = (V + j) * 3 + 1"
    "unat (global_index (of_nat V) (int j + 1) * 3 + 2) = (V + j) * 3 + 2"
    using e [of 0] e [of 1] e [of 2] by simp_all
  have next_i: "int j + 1 + 1 = int (Suc j) + 1" by simp
  obtain x y z where xyz: "(case loc of None \<Rightarrow> p | Some trsf \<Rightarrow> trsf p) = (x, y, z)"
    by (cases "case loc of None \<Rightarrow> p | Some trsf \<Rightarrow> trsf p") auto
  let ?i = "(V + j) * 3"
  let ?vs1 = "vs[?i := x, ?i + 1 := y, ?i + 2 := z]"
  have len: "?i + 3 \<le> length vs" using Cons.prems by simp
  have w: "?vs1 = take ?i vs @ [x, y, z] @ drop (?i + 3) vs"
    by (rule write3 [OF len])
  have step: "copy_nodes loc (of_nat V) (int j + 1) (p # ps) vs
      = copy_nodes loc (of_nat V) (int (Suc j) + 1) ps ?vs1"
    using xyz len by (simp add: Let_def next_i k del: of_nat_Suc)
  have ih: "copy_nodes loc (of_nat V) (int (Suc j) + 1) ps ?vs1
      = Some (take ((V + Suc j) * 3) ?vs1 @ concat (map (placed loc) ps)
            @ drop ((V + Suc j + length ps) * 3) ?vs1)"
    by (rule Cons.IH) (use Cons.prems in simp_all)
  have t: "take ((V + Suc j) * 3) ?vs1 = take ?i vs @ [x, y, z]"
    unfolding w using len by simp
  have idx: "(V + Suc j + length ps) * 3 = ?i + 3 + length ps * 3"
    "(V + j + length (p # ps)) * 3 = ?i + 3 + length ps * 3"
    by simp_all
  have d: "drop ((V + Suc j + length ps) * 3) ?vs1 = drop ((V + j + length (p # ps)) * 3) vs"
    unfolding w idx by (rule drop_past_write3 [OF len])
  have pl: "placed loc p = [x, y, z]"
    using xyz by (simp add: placed_def)
  show ?case
    unfolding step ih t d by (simp add: pl)
qed

section \<open>The triangle loop\<close>

lemma add_normal_length:
  "add_normal base fn ns vi = Some ns' \<Longrightarrow> length ns' = length ns"
  by (auto simp add: add_normal_def add_at_def Let_def split: prod.splits if_splits)

lemma add_normal_returns:
  assumes "(unat base + m) * 3 + 3 \<le> length ns"
  shows "\<exists>ns'. add_normal base fn ns (int m + 1) = Some ns'"
proof -
  have "unat (global_index base (int m + 1) * 3) < length ns"
    "unat (global_index base (int m + 1) * 3 + 1) < length ns"
    "unat (global_index base (int m + 1) * 3 + 2) < length ns"
    using slot_bound [OF assms, of 0] slot_bound [OF assms, of 1] slot_bound [OF assms, of 2]
    by simp_all
  then show ?thesis
    by (simp add: add_normal_def Let_def split: prod.splits)
qed

lemma add_normal_exact:
  assumes "(V + m) * 3 + 3 \<le> 2 ^ 32" and "(V + m) * 3 + 3 \<le> length ns"
  shows "add_normal (of_nat V) (fx, fy, fz) ns (int m + 1) =
     Some (add_at (add_at (add_at ns ((V + m) * 3) fx) ((V + m) * 3 + 1) fy) ((V + m) * 3 + 2) fz)"
proof -
  have e: "unat (global_index (of_nat V) (int m + 1) * 3 + of_nat k) = (V + m) * 3 + k"
    if "k < 3" for k
    by (rule slot_exact) (use assms that in simp)
  have k: "unat (global_index (of_nat V) (int m + 1) * 3) = (V + m) * 3"
    "unat (global_index (of_nat V) (int m + 1) * 3 + 1) = (V + m) * 3 + 1"
    "unat (global_index (of_nat V) (int m + 1) * 3 + 2) = (V + m) * 3 + 2"
    using e [of 0] e [of 1] e [of 2] by simp_all
  show ?thesis
    using assms(2) by (simp add: add_normal_def Let_def k)
qed

lemma add_at_take: "n \<le> i \<Longrightarrow> take n (add_at ns i d) = take n ns"
  by (simp add: add_at_def)

lemma add_normal_frame:
  assumes "add_normal (of_nat V) fn ns (int m + 1) = Some ns'"
    and "(V + m) * 3 + 3 \<le> 2 ^ 32"
  shows "take (V * 3) ns' = take (V * 3) ns"
proof -
  obtain fx fy fz where fn: "fn = (fx, fy, fz)" by (cases fn) auto
  have "(V + m) * 3 + 3 \<le> length ns"
  proof -
    have "unat (global_index (of_nat V) (int m + 1) * 3 + of_nat 2) = (V + m) * 3 + 2"
      by (rule slot_exact) (use assms in simp)
    then show ?thesis
      using assms(1) by (simp add: add_normal_def Let_def fn split: if_splits)
  qed
  from add_normal_exact [OF assms(2) this, of fx fy fz] assms(1) fn
  have "ns' = add_at (add_at (add_at ns ((V + m) * 3) fx) ((V + m) * 3 + 1) fy) ((V + m) * 3 + 2) fz"
    by simp
  then show ?thesis by (simp add: add_at_take)
qed

lemma emit_triangle_shape:
  assumes "emit_triangle face_reversed base out t = Some out'"
  shows "vertices out' = vertices out"
    and "length (normals out') = length (normals out)"
    and "indices out' = indices out @ pushed face_reversed base t"
proof -
  obtain n1 n2 n3 where w: "wound face_reversed t = (n1, n2, n3)"
    by (cases "wound face_reversed t") auto
  from assms w obtain ns1 ns2 ns3 where
    a: "add_normal base (face_normal (vertices out) (unat (global_index base n1 * 3))
          (unat (global_index base n2 * 3)) (unat (global_index base n3 * 3))) (normals out) n1
        = Some ns1"
    and b: "add_normal base (face_normal (vertices out) (unat (global_index base n1 * 3))
          (unat (global_index base n2 * 3)) (unat (global_index base n3 * 3))) ns1 n2 = Some ns2"
    and c: "add_normal base (face_normal (vertices out) (unat (global_index base n1 * 3))
          (unat (global_index base n2 * 3)) (unat (global_index base n3 * 3))) ns2 n3 = Some ns3"
    and r: "out' = out\<lparr>indices := indices out
          @ [global_index base n1, global_index base n2, global_index base n3], normals := ns3\<rparr>"
    by (auto simp add: emit_triangle_def Let_def bind_eq_Some_conv split: if_splits)
  show "vertices out' = vertices out" using r by simp
  show "length (normals out') = length (normals out)"
    using r add_normal_length [OF a] add_normal_length [OF b] add_normal_length [OF c] by simp
  show "indices out' = indices out @ pushed face_reversed base t"
    using r w by (simp add: pushed_def)
qed

lemma copy_triangles_shape:
  "copy_triangles face_reversed base ts out = Some out' \<Longrightarrow>
   vertices out' = vertices out \<and> length (normals out') = length (normals out)
   \<and> indices out' = indices out @ concat (map (pushed face_reversed base) ts)"
proof (induction ts arbitrary: out)
  case Nil
  then show ?case by simp
next
  case (Cons t ts)
  from Cons.prems obtain mid where
    m: "emit_triangle face_reversed base out t = Some mid"
    and r: "copy_triangles face_reversed base ts mid = Some out'"
    by (auto split: option.splits)
  from Cons.IH [OF r] emit_triangle_shape [OF m]
  show ?case by simp
qed

lemma triangle_ok_wound: "triangle_ok n t \<Longrightarrow> triangle_ok n (wound r t)"
  by (auto simp add: triangle_ok_def wound_def split: prod.splits)

lemma emit_triangle_returns:
  assumes ok: "triangle_ok n t"
    and v: "(unat base + n) * 3 \<le> length (vertices out)"
    and s: "(unat base + n) * 3 \<le> length (normals out)"
  shows "\<exists>out'. emit_triangle face_reversed base out t = Some out'"
proof -
  obtain n1 n2 n3 where w: "wound face_reversed t = (n1, n2, n3)"
    by (cases "wound face_reversed t") auto
  from triangle_ok_wound [OF ok, of face_reversed] w
  have "node_ok n n1" "node_ok n n2" "node_ok n n3"
    by (simp_all add: triangle_ok_def)
  then obtain m1 m2 m3 where
    m: "m1 < n" "n1 = int m1 + 1" "m2 < n" "n2 = int m2 + 1" "m3 < n" "n3 = int m3 + 1"
    using node_ok_nat by metis
  have bv: "(unat base + m1) * 3 + 3 \<le> length (vertices out)"
    "(unat base + m2) * 3 + 3 \<le> length (vertices out)"
    "(unat base + m3) * 3 + 3 \<le> length (vertices out)"
    using m v by simp_all
  have bn: "(unat base + m1) * 3 + 3 \<le> L" "(unat base + m2) * 3 + 3 \<le> L"
    "(unat base + m3) * 3 + 3 \<le> L" if "L = length (normals out)" for L
    using m s that by simp_all
  let ?fn = "face_normal (vertices out) (unat (global_index base n1 * 3))
          (unat (global_index base n2 * 3)) (unat (global_index base n3 * 3))"
  obtain ns1 where a: "add_normal base ?fn (normals out) n1 = Some ns1"
    using add_normal_returns [of base m1 "normals out" ?fn] bn(1) m by auto
  have l1: "length (normals out) = length ns1"
    using add_normal_length [OF a] by simp
  obtain ns2 where b: "add_normal base ?fn ns1 n2 = Some ns2"
    using add_normal_returns [of base m2 ns1 ?fn] bn(2) m l1 by auto
  have l2: "length (normals out) = length ns2"
    using add_normal_length [OF b] l1 by simp
  obtain ns3 where c: "add_normal base ?fn ns2 n3 = Some ns3"
    using add_normal_returns [of base m3 ns2 ?fn] bn(3) m l2 by auto
  show ?thesis
    using w a b c vertex_slot_bound [OF bv(1)] vertex_slot_bound [OF bv(2)]
      vertex_slot_bound [OF bv(3)] m
    by (simp add: emit_triangle_def Let_def)
qed

lemma copy_triangles_returns:
  "list_all (triangle_ok n) ts \<Longrightarrow> (unat base + n) * 3 \<le> length (vertices out) \<Longrightarrow>
   (unat base + n) * 3 \<le> length (normals out) \<Longrightarrow>
   \<exists>out'. copy_triangles face_reversed base ts out = Some out'"
proof (induction ts arbitrary: out)
  case Nil
  then show ?case by simp
next
  case (Cons t ts)
  obtain mid where m: "emit_triangle face_reversed base out t = Some mid"
    using emit_triangle_returns [of n t base out face_reversed] Cons.prems by auto
  have "\<exists>out'. copy_triangles face_reversed base ts mid = Some out'"
    by (rule Cons.IH) (use Cons.prems emit_triangle_shape [OF m] in simp_all)
  then show ?case using m by simp
qed

lemma emit_triangle_frame:
  assumes e: "emit_triangle face_reversed (of_nat V) out t = Some out'"
    and ok: "triangle_ok n t"
    and b: "(V + n) * 3 \<le> 2 ^ 32"
  shows "take (V * 3) (normals out') = take (V * 3) (normals out)"
proof -
  obtain n1 n2 n3 where w: "wound face_reversed t = (n1, n2, n3)"
    by (cases "wound face_reversed t") auto
  from triangle_ok_wound [OF ok, of face_reversed] w
  have "node_ok n n1" "node_ok n n2" "node_ok n n3"
    by (simp_all add: triangle_ok_def)
  then obtain m1 m2 m3 where
    m: "m1 < n" "n1 = int m1 + 1" "m2 < n" "n2 = int m2 + 1" "m3 < n" "n3 = int m3 + 1"
    using node_ok_nat by metis
  have bb: "(V + m1) * 3 + 3 \<le> 2 ^ 32" "(V + m2) * 3 + 3 \<le> 2 ^ 32"
    "(V + m3) * 3 + 3 \<le> 2 ^ 32"
    using m b by simp_all
  let ?fn = "face_normal (vertices out) (unat (global_index (of_nat V) n1 * 3))
          (unat (global_index (of_nat V) n2 * 3)) (unat (global_index (of_nat V) n3 * 3))"
  from e w obtain ns1 ns2 ns3 where
    a: "add_normal (of_nat V) ?fn (normals out) (int m1 + 1) = Some ns1"
    and b: "add_normal (of_nat V) ?fn ns1 (int m2 + 1) = Some ns2"
    and c: "add_normal (of_nat V) ?fn ns2 (int m3 + 1) = Some ns3"
    and r: "normals out' = ns3"
    unfolding m(2,4,6)
    by (auto simp add: emit_triangle_def Let_def bind_eq_Some_conv split: if_splits)
  show ?thesis
    using add_normal_frame [OF a bb(1)] add_normal_frame [OF b bb(2)]
      add_normal_frame [OF c bb(3)] r by simp
qed

lemma copy_triangles_frame:
  "copy_triangles face_reversed (of_nat V) ts out = Some out' \<Longrightarrow>
   list_all (triangle_ok n) ts \<Longrightarrow> (V + n) * 3 \<le> 2 ^ 32 \<Longrightarrow>
   take (V * 3) (normals out') = take (V * 3) (normals out)"
proof (induction ts arbitrary: out)
  case Nil
  then show ?case by simp
next
  case (Cons t ts)
  from Cons.prems(1) obtain mid where
    m: "emit_triangle face_reversed (of_nat V) out t = Some mid"
    and r: "copy_triangles face_reversed (of_nat V) ts mid = Some out'"
    by (auto split: option.splits)
  have "take (V * 3) (normals out') = take (V * 3) (normals mid)"
    by (rule Cons.IH [OF r]) (use Cons.prems in simp_all)
  moreover have "take (V * 3) (normals mid) = take (V * 3) (normals out)"
    by (rule emit_triangle_frame [OF m]) (use Cons.prems in simp_all)
  ultimately show ?case by simp
qed

lemma pushed_bound:
  assumes "triangle_ok n t" and "g \<in> set (pushed face_reversed base t)"
  shows "unat g < unat base + n"
proof -
  obtain n1 n2 n3 where w: "wound face_reversed t = (n1, n2, n3)"
    by (cases "wound face_reversed t") auto
  from triangle_ok_wound [OF assms(1), of face_reversed] w
  have "node_ok n n1" "node_ok n n2" "node_ok n n3"
    by (simp_all add: triangle_ok_def)
  then obtain m1 m2 m3 where
    m: "m1 < n" "n1 = int m1 + 1" "m2 < n" "n2 = int m2 + 1" "m3 < n" "n3 = int m3 + 1"
    using node_ok_nat by metis
  from assms(2) w m
  have "g = global_index base (int m1 + 1) \<or> g = global_index base (int m2 + 1)
      \<or> g = global_index base (int m3 + 1)"
    by (auto simp add: pushed_def)
  then show ?thesis
    using unat_global_index_le [of base m1] unat_global_index_le [of base m2]
      unat_global_index_le [of base m3] m by auto
qed

lemma pushed_cases:
  "pushed False base (n1, n2, n3) = [global_index base n1, global_index base n2, global_index base n3]"
  "pushed True base (n1, n2, n3) = [global_index base n2, global_index base n1, global_index base n3]"
  by (simp_all add: pushed_def wound_def)

section \<open>Appending a patch\<close>

lemma append_triangulation_shape:
  assumes "append_triangulation out tri loc face_reversed = Some out'"
  shows "length (vertices out') = length (vertices out) + length (Nodes tri) * 3"
    and "length (normals out') = length (normals out) + length (Nodes tri) * 3"
    and "indices out' = indices out
          @ concat (map (pushed face_reversed (of_nat (length (vertices out) div 3)))
              (Triangles tri))"
proof -
  from assms obtain vs where
    n: "copy_nodes loc (of_nat (length (vertices out) div 3)) 1 (Nodes tri)
          (vertices out @ replicate (length (Nodes tri) * 3) 0) = Some vs"
    and t: "copy_triangles face_reversed (of_nat (length (vertices out) div 3)) (Triangles tri)
          (out\<lparr>vertices := vs,
               normals := normals out @ replicate (length (Nodes tri) * 3) 0\<rparr>) = Some out'"
    by (auto simp add: append_triangulation_def Let_def split: option.splits)
  show "length (vertices out') = length (vertices out) + length (Nodes tri) * 3"
    using copy_nodes_length [OF n] copy_triangles_shape [OF t] by simp
  show "length (normals out') = length (normals out) + length (Nodes tri) * 3"
    using copy_triangles_shape [OF t] by simp
  show "indices out' = indices out
          @ concat (map (pushed face_reversed (of_nat (length (vertices out) div 3)))
              (Triangles tri))"
    using copy_triangles_shape [OF t] by simp
qed

lemma append_triangulation_returns:
  assumes ok: "triangulation_ok tri"
    and eq: "length (normals out) = length (vertices out)"
  shows "\<exists>out'. append_triangulation out tri loc face_reversed = Some out'"
proof -
  let ?V = "length (vertices out) div 3"
  let ?n = "length (Nodes tri)"
  let ?base = "of_nat ?V :: 32 word"
  have ub: "unat ?base \<le> ?V" by (rule unat_base_le)
  have room: "(unat ?base + ?n) * 3 \<le> length (vertices out) + ?n * 3"
    using ub by (simp add: algebra_simps)
  obtain vs where
    n: "copy_nodes loc ?base (int 0 + 1) (Nodes tri) (vertices out @ replicate (?n * 3) 0) = Some vs"
    using copy_nodes_returns [of ?base 0 "Nodes tri"
        "vertices out @ replicate (?n * 3) 0" loc] room by auto
  have lv: "length vs = length (vertices out) + ?n * 3"
    using copy_nodes_length [OF n] by simp
  have "\<exists>out'. copy_triangles face_reversed ?base (Triangles tri)
          (out\<lparr>vertices := vs, normals := normals out @ replicate (?n * 3) 0\<rparr>) = Some out'"
    by (rule copy_triangles_returns [of ?n])
      (use ok room lv eq in \<open>simp_all add: triangulation_ok_def\<close>)
  then show ?thesis
    using n by (simp add: append_triangulation_def Let_def)
qed

lemma append_triangulation_frame:
  assumes a: "append_triangulation out tri loc face_reversed = Some out'"
    and ok: "triangulation_ok tri"
    and lv: "length (vertices out) = V * 3"
    and ln: "length (normals out) = V * 3"
    and b: "(V + length (Nodes tri)) * 3 \<le> 2 ^ 32"
  shows "vertices out' = vertices out @ concat (map (placed loc) (Nodes tri))"
    and "take (V * 3) (normals out') = normals out"
proof -
  let ?n = "length (Nodes tri)"
  have base: "length (vertices out) div 3 = V" using lv by simp
  have "copy_nodes loc (of_nat V) (int 0 + 1) (Nodes tri) (vertices out @ replicate (?n * 3) 0)
      = Some (take ((V + 0) * 3) (vertices out @ replicate (?n * 3) 0)
          @ concat (map (placed loc) (Nodes tri))
          @ drop ((V + 0 + ?n) * 3) (vertices out @ replicate (?n * 3) 0))"
    by (rule copy_nodes_exact) (use b lv in simp_all)
  then have n: "copy_nodes loc (of_nat V) 1 (Nodes tri) (vertices out @ replicate (?n * 3) 0)
      = Some (vertices out @ concat (map (placed loc) (Nodes tri)))"
    using lv by simp
  from a n have t: "copy_triangles face_reversed (of_nat V) (Triangles tri)
      (out\<lparr>vertices := vertices out @ concat (map (placed loc) (Nodes tri)),
           normals := normals out @ replicate (?n * 3) 0\<rparr>) = Some out'"
    by (simp add: append_triangulation_def Let_def base)
  show "vertices out' = vertices out @ concat (map (placed loc) (Nodes tri))"
    using copy_triangles_shape [OF t] by simp
  have "take (V * 3) (normals out') =
      take (V * 3) (normals (out\<lparr>vertices := vertices out @ concat (map (placed loc) (Nodes tri)),
           normals := normals out @ replicate (?n * 3) 0\<rparr>))"
    by (rule copy_triangles_frame [OF t, of ?n]) (use ok b in \<open>simp_all add: triangulation_ok_def\<close>)
  then show "take (V * 3) (normals out') = normals out"
    using ln by simp
qed

lemma replicate_numeral: "replicate (numeral k) x = x # replicate (pred_numeral k) x"
  by (simp add: numeral_eq_Suc)

lemma list_update_Cons_numeral: "(x # xs)[numeral k := y] = x # xs[pred_numeral k := y]"
  by (simp add: numeral_eq_Suc)

lemmas assembly_defs =
  replicate_numeral list_update_Cons_numeral
  append_triangulation_def emit_triangle_def add_normal_def add_at_def global_index_def
  wound_def face_normal_def Crossed_def Let_def empty_mesh_def

lemma append_patchA: "append_triangulation empty_mesh patchA None False = Some meshA"
  by (simp add: assembly_defs patchA_def meshA_def)

lemma append_patchB: "append_triangulation meshA patchA (Some shift10) True = Some meshAB"
  by (simp add: assembly_defs patchA_def meshA_def meshAB_def shift10_def)

text \<open>
  Claim C4. When \<open>append_triangulation\<close> returns, the index list is the old one followed,
  for each source triangle in order, by its pushed triple, with \<open>base\<close> the vertex count
  before the patch. The triple of \<open>(n1, n2, n3)\<close> is \<open>base + (n - 1)\<close> for \<open>n1, n2, n3\<close> on
  a face that is not reversed and for \<open>n2, n1, n3\<close> on a reversed one, in 32-bit
  arithmetic; for a node number within the patch and a vertex total within 32 bits that
  is the number \<open>V + n - 1\<close>. A patch whose triangles name only its own nodes is
  appended without fault.
\<close>

theorem append_triangulation_emits:
  "(append_triangulation out tri loc face_reversed = Some out' \<longrightarrow>
      indices out' = indices out
        @ concat (map (pushed face_reversed (of_nat (length (vertices out) div 3))) (Triangles tri)))
   \<and> pushed False base (n1, n2, n3)
        = [global_index base n1, global_index base n2, global_index base n3]
   \<and> pushed True base (n1, n2, n3)
        = [global_index base n2, global_index base n1, global_index base n3]
   \<and> (node_ok nNodes n \<and> V + nNodes \<le> 2 ^ 32 \<longrightarrow>
        unat (global_index (of_nat V) n) = V + nat n - 1)
   \<and> (triangulation_ok tri \<and> length (normals out) = length (vertices out) \<longrightarrow>
        (\<exists>res. append_triangulation out tri loc face_reversed = Some res))"
  using append_triangulation_shape(3) [of out tri loc face_reversed out']
    pushed_cases [of base n1 n2 n3] global_index_value [of nNodes n V]
    append_triangulation_returns [of tri out loc face_reversed]
  by simp

theorem append_triangulation_emits_witness:
  "indices meshAB = indices meshA
      @ concat (map (pushed True (of_nat (length (vertices meshA) div 3))) (Triangles patchA))
   \<and> indices meshA = [0, 1, 2] \<and> indices meshAB = [0, 1, 2, 4, 3, 5]
   \<and> pushed False 3 (1, 2, 3) = [global_index 3 1, global_index 3 2, global_index 3 3]
   \<and> pushed True 3 (1, 2, 3) = [global_index 3 2, global_index 3 1, global_index 3 3]
   \<and> unat (global_index (of_nat 3) 2) = 3 + nat 2 - 1
   \<and> (\<exists>res. append_triangulation meshA patchA (Some shift10) True = Some res)"
proof -
  note t = append_triangulation_emits [where out = meshA and tri = patchA
      and loc = "Some shift10" and face_reversed = True and out' = meshAB and base = 3
      and ?n1.0 = 1 and ?n2.0 = 2 and ?n3.0 = 3 and nNodes = 3 and n = 2 and V = 3]
  have "indices meshAB = indices meshA
      @ concat (map (pushed True (of_nat (length (vertices meshA) div 3))) (Triangles patchA))"
    by (rule t [THEN conjunct1, rule_format, OF append_patchB])
  moreover have "indices meshA = [0, 1, 2]" "indices meshAB = [0, 1, 2, 4, 3, 5]"
    by (simp_all add: meshA_def meshAB_def)
  moreover have
    "pushed False 3 (1, 2, 3) = [global_index 3 1, global_index 3 2, global_index 3 3]"
    by (rule t [THEN conjunct2, THEN conjunct1])
  moreover have
    "pushed True 3 (1, 2, 3) = [global_index 3 2, global_index 3 1, global_index 3 3]"
    by (rule t [THEN conjunct2, THEN conjunct2, THEN conjunct1])
  moreover have "unat (global_index (of_nat 3) 2) = 3 + nat 2 - 1"
    by (rule t [THEN conjunct2, THEN conjunct2, THEN conjunct2, THEN conjunct1, rule_format])
      (simp add: node_ok_def)
  moreover have "\<exists>res. append_triangulation meshA patchA (Some shift10) True = Some res"
    by (rule t [THEN conjunct2, THEN conjunct2, THEN conjunct2, THEN conjunct2, rule_format])
      (simp add: triangulation_ok_def triangle_ok_def node_ok_def patchA_def meshA_def)
  ultimately show ?thesis by (simp only: simp_thms)
qed

text \<open>
  Claim C5, as amended. A face with no triangulation is skipped and contributes nothing.
  A triangulation with an empty triangle list is not skipped: when the buffer holds \<open>V\<close>
  whole vertices and three times the vertex count after the patch is at most \<open>2 ^ 32\<close>, it
  contributes no index, and its nodes are appended as vertices with zero normals, so the
  vertex list stays as it was only when the patch has no node either.
\<close>

theorem null_triangulation_skipped:
  "(Triangulation face = None \<longrightarrow> merge_faces (face # faces) out = merge_faces faces out)
   \<and> (Triangles tri = [] \<and> length (vertices out) = V * 3
        \<and> (V + length (Nodes tri)) * 3 \<le> 2 ^ 32 \<longrightarrow>
      append_triangulation out tri loc face_reversed =
        Some (out\<lparr>vertices := vertices out @ concat (map (placed loc) (Nodes tri)),
                  normals := normals out @ replicate (length (Nodes tri) * 3) 0\<rparr>))"
proof -
  have "append_triangulation out tri loc face_reversed =
        Some (out\<lparr>vertices := vertices out @ concat (map (placed loc) (Nodes tri)),
                  normals := normals out @ replicate (length (Nodes tri) * 3) 0\<rparr>)"
    if t: "Triangles tri = []" and lv: "length (vertices out) = V * 3"
      and b: "(V + length (Nodes tri)) * 3 \<le> 2 ^ 32"
  proof -
    let ?n = "length (Nodes tri)"
    have "copy_nodes loc (of_nat V) (int 0 + 1) (Nodes tri) (vertices out @ replicate (?n * 3) 0)
      = Some (take ((V + 0) * 3) (vertices out @ replicate (?n * 3) 0)
          @ concat (map (placed loc) (Nodes tri))
          @ drop ((V + 0 + ?n) * 3) (vertices out @ replicate (?n * 3) 0))"
      by (rule copy_nodes_exact) (use b lv in simp_all)
    then have "copy_nodes loc (of_nat V) 1 (Nodes tri) (vertices out @ replicate (?n * 3) 0)
      = Some (vertices out @ concat (map (placed loc) (Nodes tri)))"
      using lv by simp
    then show ?thesis
      using t lv by (simp add: append_triangulation_def Let_def)
  qed
  then show ?thesis by simp
qed

theorem null_triangulation_skipped_witness:
  "merge_faces [\<lparr>Triangulation = None, Location = None, Reversed = False\<rparr>,
               \<lparr>Triangulation = Some lone_node, Location = None, Reversed = True\<rparr>] meshA
     = merge_faces [\<lparr>Triangulation = Some lone_node, Location = None, Reversed = True\<rparr>] meshA
   \<and> append_triangulation meshA lone_node None False =
        Some (meshA\<lparr>vertices := vertices meshA @ concat (map (placed None) (Nodes lone_node)),
                    normals := normals meshA @ replicate (length (Nodes lone_node) * 3) 0\<rparr>)
   \<and> vertices meshA @ concat (map (placed None) (Nodes lone_node))
       = [0, 0, 0, 1, 0, 0, 0, 1, 0, 1, 2, 3]"
proof -
  have "merge_faces [\<lparr>Triangulation = None, Location = None, Reversed = False\<rparr>,
               \<lparr>Triangulation = Some lone_node, Location = None, Reversed = True\<rparr>] meshA
     = merge_faces [\<lparr>Triangulation = Some lone_node, Location = None, Reversed = True\<rparr>] meshA"
    by (rule null_triangulation_skipped [THEN conjunct1, rule_format]) simp
  moreover have "append_triangulation meshA lone_node None False =
        Some (meshA\<lparr>vertices := vertices meshA @ concat (map (placed None) (Nodes lone_node)),
                    normals := normals meshA @ replicate (length (Nodes lone_node) * 3) 0\<rparr>)"
    by (rule null_triangulation_skipped [where V = 3, THEN conjunct2, rule_format])
      (simp add: lone_node_def meshA_def)
  moreover have "vertices meshA @ concat (map (placed None) (Nodes lone_node))
       = [0, 0, 0, 1, 0, 0, 0, 1, 0, 1, 2, 3]"
    by (simp add: meshA_def lone_node_def placed_def)
  ultimately show ?thesis by (simp only: simp_thms)
qed

text \<open>
  Claim C5 as stated fails: a patch of one node and no triangle adds that node's three
  coordinates to the vertex list.
\<close>

theorem patch_without_triangles_adds_vertices:
  "Triangles lone_node = []
   \<and> merge_faces [\<lparr>Triangulation = Some lone_node, Location = None, Reversed = False\<rparr>] empty_mesh
       = Some \<lparr>vertices = [1, 2, 3], normals = [0, 0, 0], indices = []\<rparr>
   \<and> vertices \<lparr>vertices = [1, 2, 3], normals = [0, 0, 0], indices = []\<rparr>
       \<noteq> vertices (empty_mesh :: int CgMeshData)"
  by (simp add: assembly_defs lone_node_def)

text \<open>
  Claim C10, as amended. For a buffer of \<open>V\<close> vertices, a patch whose triangles name only
  its own nodes, and a vertex total whose tripled count fits 32 bits,
  \<open>append_triangulation\<close> leaves the first \<open>V\<close> vertex positions, the first \<open>V\<close> normal
  slots and the index entries already there as they were.
\<close>

theorem append_triangulation_only_appends:
  assumes "append_triangulation out tri loc face_reversed = Some out'"
    and "triangulation_ok tri"
    and "length (vertices out) = V * 3" and "length (normals out) = V * 3"
    and "(V + length (Nodes tri)) * 3 \<le> 2 ^ 32"
  shows "take (V * 3) (vertices out') = vertices out
       \<and> take (V * 3) (normals out') = normals out
       \<and> take (length (indices out)) (indices out') = indices out"
  using append_triangulation_frame [OF assms] append_triangulation_shape(3) [OF assms(1)] assms(3)
  by simp

theorem append_triangulation_only_appends_witness:
  "take (3 * 3) (vertices meshAB) = vertices meshA
   \<and> take (3 * 3) (normals meshAB) = normals meshA
   \<and> take (length (indices meshA)) (indices meshAB) = indices meshA"
proof (rule append_triangulation_only_appends [OF append_patchB])
  show "triangulation_ok patchA"
    by (simp add: triangulation_ok_def triangle_ok_def node_ok_def patchA_def)
  show "length (vertices meshA) = 3 * 3" "length (normals meshA) = 3 * 3"
    by (simp_all add: meshA_def)
  show "(3 + length (Nodes patchA)) * 3 \<le> 2 ^ 32"
    by (simp add: patchA_def)
qed

text \<open>
  Claim C10 as stated fails: a second patch with a triangle naming node 0 adds its face
  normal into the last vertex of the first patch.
\<close>

theorem earlier_normal_slot_written:
  "append_triangulation empty_mesh patchA None False = Some meshA
   \<and> append_triangulation meshA zero_node_patch None False
       = Some \<lparr>vertices = [0, 0, 0, 1, 0, 0, 0, 1, 0, 0, 0, 0, 1, 0, 0, 0, 1, 0],
               normals = [0, 0, 1, 0, 0, 1, 0, 0, 2, 0, 0, 1, 0, 0, 1, 0, 0, 0],
               indices = [0, 1, 2, 2, 3, 4]\<rparr>
   \<and> take 9 [0, 0, 1, 0, 0, 1, 0, 0, 2, 0, 0, 1, 0, 0, 1, 0, 0, 0 :: int] \<noteq> normals meshA"
  by (simp add: assembly_defs patchA_def meshA_def zero_node_patch_def)

section \<open>Merging faces and normalizing\<close>

lemma mesh_ok_empty: "mesh_ok empty_mesh"
  by (simp add: mesh_ok_def empty_mesh_def)

lemma append_triangulation_ok:
  assumes a: "append_triangulation out tri loc face_reversed = Some out'"
    and ok: "triangulation_ok tri" and wf: "mesh_ok out"
  shows "mesh_ok out'"
proof -
  note s = append_triangulation_shape [OF a]
  obtain V where V: "length (vertices out) = V * 3"
    using wf by (auto simp add: mesh_ok_def dvd_def mult.commute)
  have len: "length (vertices out') = (V + length (Nodes tri)) * 3"
    using s(1) V by simp
  have old: "unat g < V + length (Nodes tri)" if "g \<in> set (indices out)" for g
    using wf that V by (auto simp add: mesh_ok_def list_all_iff)
  have new: "unat g < V + length (Nodes tri)"
    if "g \<in> set (concat (map (pushed face_reversed (of_nat V)) (Triangles tri)))" for g
  proof -
    from that obtain t where t: "t \<in> set (Triangles tri)"
      and g: "g \<in> set (pushed face_reversed (of_nat V) t)"
      by auto
    have "triangle_ok (length (Nodes tri)) t"
      using ok t by (simp add: triangulation_ok_def list_all_iff)
    from pushed_bound [OF this g] unat_base_le [of V]
    show ?thesis by linarith
  qed
  show ?thesis
    using s wf V len old new
    by (auto simp add: mesh_ok_def list_all_iff)
qed

lemma merge_faces_ok:
  "faces_ok faces \<Longrightarrow> mesh_ok out \<Longrightarrow>
   \<exists>out'. merge_faces faces out = Some out' \<and> mesh_ok out'"
proof (induction faces arbitrary: out)
  case Nil
  then show ?case by simp
next
  case (Cons face faces)
  show ?case
  proof (cases "Triangulation face")
    case None
    then show ?thesis using Cons by (simp add: faces_ok_def)
  next
    case (Some tri)
    have ok: "triangulation_ok tri"
      using Cons.prems(1) Some by (simp add: faces_ok_def)
    obtain mid where
      m: "append_triangulation out tri (Location face) (Reversed face) = Some mid"
      using append_triangulation_returns [OF ok, of out] Cons.prems(2)
      by (auto simp add: mesh_ok_def)
    have "mesh_ok mid"
      by (rule append_triangulation_ok [OF m ok Cons.prems(2)])
    then show ?thesis
      using Cons.IH [of mid] Cons.prems(1) Some m by (simp add: faces_ok_def)
  qed
qed

lemma merge_faces_lengths:
  "merge_faces faces out = Some out' \<Longrightarrow> length (normals out) = length (vertices out) \<Longrightarrow>
   length (normals out') = length (vertices out')"
proof (induction faces arbitrary: out)
  case Nil
  then show ?case by simp
next
  case (Cons face faces)
  show ?case
  proof (cases "Triangulation face")
    case None
    then show ?thesis using Cons by simp
  next
    case (Some tri)
    from Cons.prems(1) Some obtain mid where
      m: "append_triangulation out tri (Location face) (Reversed face) = Some mid"
      and r: "merge_faces faces mid = Some out'"
      by (auto split: option.splits)
    show ?thesis
      by (rule Cons.IH [OF r]) (use append_triangulation_shape [OF m] Cons.prems(2) in simp)
  qed
qed

lemma normalize_at_length: "normalize_at std_sqrt eps ns i = Some ns' \<Longrightarrow> length ns' = length ns"
  by (auto simp add: normalize_at_def Let_def split: if_splits)

lemma normalize_loop_length:
  "normalize_loop std_sqrt eps i nVerts ns = Some ns' \<Longrightarrow> length ns' = length ns"
proof (induction std_sqrt eps i nVerts ns rule: normalize_loop.induct)
  case (1 std_sqrt eps i nVerts ns)
  show ?case
  proof (cases "i < nVerts")
    case True
    with "1.prems" obtain mid where
      m: "normalize_at std_sqrt eps ns i = Some mid" and r: "normalize_loop std_sqrt eps (i + 1) nVerts mid = Some ns'"
      by (auto simp add: normalize_loop.simps [of std_sqrt eps i nVerts ns] split: option.splits)
    from "1.IH" [OF True m r] normalize_at_length [OF m]
    show ?thesis by simp
  next
    case False
    with "1.prems" show ?thesis by (simp add: normalize_loop.simps [of std_sqrt eps i nVerts ns])
  qed
qed

lemma normalize_loop_returns:
  "nVerts * 3 \<le> length ns \<Longrightarrow> \<exists>ns'. normalize_loop std_sqrt eps i nVerts ns = Some ns'"
proof (induction std_sqrt eps i nVerts ns rule: normalize_loop.induct)
  case (1 std_sqrt eps i nVerts ns)
  show ?case
  proof (cases "i < nVerts")
    case True
    then have "i * 3 + 2 < length ns" using "1.prems" by linarith
    then obtain mid where m: "normalize_at std_sqrt eps ns i = Some mid"
      by (simp add: normalize_at_def Let_def)
    have "\<exists>ns'. normalize_loop std_sqrt eps (i + 1) nVerts mid = Some ns'"
      by (rule "1.IH" [OF True m]) (use normalize_at_length [OF m] "1.prems" in simp)
    then show ?thesis using True m by (simp add: normalize_loop.simps [of std_sqrt eps i nVerts ns])
  next
    case False
    then show ?thesis by (simp add: normalize_loop.simps [of std_sqrt eps i nVerts ns])
  qed
qed

lemma normalize_normals_shape:
  "normalize_normals std_sqrt eps out = Some out' \<Longrightarrow>
   vertices out' = vertices out \<and> indices out' = indices out
   \<and> length (normals out') = length (normals out)"
  by (auto simp add: normalize_normals_def dest: normalize_loop_length)

lemma normalize_normals_returns:
  assumes "length (normals out) = length (vertices out)"
  shows "\<exists>out'. normalize_normals std_sqrt eps out = Some out'"
proof -
  have "length (vertices out) div 3 * 3 \<le> length (normals out)"
    using assms by simp
  from normalize_loop_returns [OF this, where i = 0]
  show ?thesis by (auto simp add: normalize_normals_def)
qed

text \<open>
  Claim C9. A mesh merged from any faces and then normalized has vertex and normal arrays
  of one length. When every patch's triangles name only its own nodes, merging and
  normalizing return, and every index of the result is less than its vertex count. This
  holds for every arithmetic of the coordinates, every \<open>std_sqrt\<close> and every \<open>eps\<close>.
\<close>

theorem assembled_mesh_invariant:
  "(merge_faces faces empty_mesh = Some data \<and> normalize_normals std_sqrt eps data = Some fin \<longrightarrow>
      length (vertices fin) = length (normals fin))
   \<and> (faces_ok faces \<longrightarrow>
        (\<exists>data' fin'. merge_faces faces empty_mesh = Some data'
           \<and> normalize_normals std_sqrt eps data' = Some fin'
           \<and> length (vertices fin') = length (normals fin')
           \<and> list_all (\<lambda>g. unat g < length (vertices fin') div 3) (indices fin')))"
proof -
  have a: "length (vertices fin) = length (normals fin)"
    if "merge_faces faces empty_mesh = Some data" "normalize_normals std_sqrt eps data = Some fin"
    using merge_faces_lengths [OF that(1)] normalize_normals_shape [OF that(2)]
    by (simp add: empty_mesh_def)
  have b: "\<exists>data' fin'. merge_faces faces empty_mesh = Some data'
           \<and> normalize_normals std_sqrt eps data' = Some fin'
           \<and> length (vertices fin') = length (normals fin')
           \<and> list_all (\<lambda>g. unat g < length (vertices fin') div 3) (indices fin')"
    if "faces_ok faces"
  proof -
    from merge_faces_ok [OF that mesh_ok_empty]
    obtain data' where d: "merge_faces faces empty_mesh = Some data'" "mesh_ok data'" by auto
    from normalize_normals_returns [of data'] d(2)
    obtain fin' where f: "normalize_normals std_sqrt eps data' = Some fin'" by (auto simp add: mesh_ok_def)
    from normalize_normals_shape [OF f] d(2)
    have "length (vertices fin') = length (normals fin')"
      "list_all (\<lambda>g. unat g < length (vertices fin') div 3) (indices fin')"
      by (simp_all add: mesh_ok_def)
    with d(1) f show ?thesis by blast
  qed
  from a b show ?thesis by blast
qed

lemma merge_unit_face: "merge_faces ([] @ unit_face # []) empty_mesh = Some triangle_mesh"
  by (simp add: assembly_defs unit_face_def triangle_mesh_def)

lemma normalize_triangle_mesh: "normalize_normals sqrt (1 / 10 ^ 12) triangle_mesh = Some triangle_mesh"
proof -
  let ?ns = "[0, 0, 1, 0, 0, 1, 0, 0, 1 :: real]"
  have at: "normalize_at sqrt (1 / 10 ^ 12) ?ns i = Some ?ns" if "i < 3" for i
  proof -
    from that consider "i = 0" | "i = 1" | "i = 2" by linarith
    then show ?thesis
      by cases (simp_all add: normalize_at_def Let_def)
  qed
  have l3: "normalize_loop sqrt (1 / 10 ^ 12) (Suc (Suc (Suc 0))) 3 ?ns = Some ?ns"
    by (simp add: normalize_loop.simps [of sqrt _ "Suc (Suc (Suc 0))"])
  have l2: "normalize_loop sqrt (1 / 10 ^ 12) (Suc (Suc 0)) 3 ?ns = Some ?ns"
    using at [of 2] l3 by (simp add: normalize_loop.simps [of sqrt _ "Suc (Suc 0)"] numeral_2_eq_2)
  have l1: "normalize_loop sqrt (1 / 10 ^ 12) (Suc 0) 3 ?ns = Some ?ns"
    using at [of 1] l2 by (simp add: normalize_loop.simps [of sqrt _ "Suc 0"])
  have "normalize_loop sqrt (1 / 10 ^ 12) 0 3 ?ns = Some ?ns"
    using at [of 0] l1 by (simp add: normalize_loop.simps [of sqrt _ 0])
  then show ?thesis by (simp add: normalize_normals_def triangle_mesh_def)
qed

theorem assembled_mesh_invariant_witness:
  "faces_ok two_faces
   \<and> (\<exists>data fin. merge_faces two_faces empty_mesh = Some data
         \<and> normalize_normals sqrt (1 / 10 ^ 12) data = Some fin
         \<and> length (vertices fin) = length (normals fin)
         \<and> list_all (\<lambda>g. unat g < length (vertices fin) div 3) (indices fin))
   \<and> merge_faces [unit_face] empty_mesh = Some triangle_mesh
   \<and> normalize_normals sqrt (1 / 10 ^ 12) triangle_mesh = Some triangle_mesh
   \<and> length (vertices triangle_mesh) = length (normals triangle_mesh)"
proof -
  have ok: "faces_ok two_faces"
    by (simp add: two_faces_def faces_ok_def triangulation_ok_def triangle_ok_def node_ok_def)
  have m: "merge_faces [unit_face] empty_mesh = Some triangle_mesh"
    by (rule merge_unit_face [unfolded append_Nil])
  have "\<exists>data fin. merge_faces two_faces empty_mesh = Some data
         \<and> normalize_normals sqrt (1 / 10 ^ 12) data = Some fin
         \<and> length (vertices fin) = length (normals fin)
         \<and> list_all (\<lambda>g. unat g < length (vertices fin) div 3) (indices fin)"
    by (rule assembled_mesh_invariant [where faces = two_faces and std_sqrt = sqrt
          and eps = "1 / 10 ^ 12", THEN conjunct2, rule_format, OF ok])
  moreover have "length (vertices triangle_mesh) = length (normals triangle_mesh)"
    by (rule assembled_mesh_invariant [where faces = "[unit_face]" and data = triangle_mesh
          and fin = triangle_mesh and std_sqrt = sqrt and eps = "1 / 10 ^ 12",
          THEN conjunct1, rule_format])
      (simp only: m normalize_triangle_mesh simp_thms)
  ultimately show ?thesis using ok m normalize_triangle_mesh by (simp only: simp_thms)
qed

lemma append_small_triangle:
  fixes a s :: "'a::{zero,plus,minus,times}"
  assumes "a - 0 = a" "0 - 0 = (0::'a)" "0 * 0 = (0::'a)" "0 * a = 0" "a * 0 = 0" "a * a = s"
    "s - 0 = s" "0 + 0 = (0::'a)" "0 + s = s"
  shows "append_triangulation empty_mesh (small_triangle a) None False = Some (tiny_mesh a s)"
  by (simp add: assembly_defs small_triangle_def tiny_mesh_def assms)

lemma normalize_small_normals:
  fixes s q eps :: "'a::{zero,plus,times,inverse,ord}"
  assumes "0 * 0 = (0::'a)" "0 + 0 = (0::'a)" "s * s = q" "0 + q = q" "std_sqrt q = s"
    "\<not> eps < s"
  shows "normalize_normals std_sqrt eps (tiny_mesh a s) = Some (tiny_mesh a s)"
proof -
  let ?ns = "[0, 0, s, 0, 0, s, 0, 0, s]"
  have at: "normalize_at std_sqrt eps ?ns i = Some ?ns" if "i < 3" for i
  proof -
    from that consider "i = 0" | "i = 1" | "i = 2" by linarith
    then show ?thesis
      by cases (simp_all add: normalize_at_def Let_def assms)
  qed
  have l3: "normalize_loop std_sqrt eps (Suc (Suc (Suc 0))) 3 ?ns = Some ?ns"
    by (simp add: normalize_loop.simps [of std_sqrt eps "Suc (Suc (Suc 0))"])
  have l2: "normalize_loop std_sqrt eps (Suc (Suc 0)) 3 ?ns = Some ?ns"
    using at [of 2] l3 by (simp add: normalize_loop.simps [of std_sqrt eps "Suc (Suc 0)"] numeral_2_eq_2)
  have l1: "normalize_loop std_sqrt eps (Suc 0) 3 ?ns = Some ?ns"
    using at [of 1] l2 by (simp add: normalize_loop.simps [of std_sqrt eps "Suc 0"])
  have "normalize_loop std_sqrt eps 0 3 ?ns = Some ?ns"
    using at [of 0] l1 by (simp add: normalize_loop.simps [of std_sqrt eps 0])
  then show ?thesis by (simp add: normalize_normals_def tiny_mesh_def)
qed

lemma sqrt_tiny: "sqrt (1 / 2 ^ 80) = 1 / 2 ^ 40"
proof -
  have "sqrt ((1 / 2 ^ 40) * (1 / 2 ^ 40)) = \<bar>1 / 2 ^ 40 :: real\<bar>"
    by (rule real_sqrt_abs2)
  then show ?thesis by simp
qed

text \<open>
  Claim C6, at the failing input: one triangle with corners \<open>(0, 0, 0)\<close>, \<open>(a, 0, 0)\<close>
  and \<open>(0, a, 0)\<close> for \<open>a = 1 / 2 ^ 20\<close>, as the only face of a shape or the content of an
  STL file. Each of its vertices accumulates the cross product \<open>(0, 0, 1 / 2 ^ 40)\<close>, whose
  magnitude \<open>1 / 2 ^ 40\<close> does not exceed \<open>1e-12\<close>, and \<open>normalize_normals\<close> leaves it as
  it is: the normal stored for the vertex is neither \<open>(0, 0, 0)\<close> nor of unit length.
  Every value in this computation is 0 or a power of two from \<open>1 / 2 ^ 80\<close> to
  \<open>1 / 2 ^ 20\<close>, on which each operation of \<open>double\<close> is exact, and \<open>1 / 2 ^ 40\<close> is below
  both \<open>1 / 10 ^ 12\<close> and the \<open>double\<close> nearest to it, so the real numbers of the theorem
  are the values the code computes. \<open>append_small_triangle\<close> and
  \<open>normalize_small_normals\<close> list the facts of arithmetic the evaluation uses.
\<close>

theorem small_normal_left_unnormalized:
  "append_triangulation empty_mesh (small_triangle (1 / 2 ^ 20 :: real)) None False
     = Some (tiny_mesh (1 / 2 ^ 20) (1 / 2 ^ 40))
   \<and> normalize_normals sqrt (1 / 10 ^ 12) (tiny_mesh (1 / 2 ^ 20) (1 / 2 ^ 40))
       = Some (tiny_mesh (1 / 2 ^ 20) (1 / 2 ^ 40))
   \<and> cg_load_stl sqrt (1 / 10 ^ 12) tiny_stl_reader (Some ''tiny.stl'')
         (initial_state :: (string, real) api_state)
       = Some (1, initial_state\<lparr>g_mesh_store := [1 \<mapsto> tiny_mesh (1 / 2 ^ 20) (1 / 2 ^ 40)],
                    g_mesh_next_id := 2\<rparr>)
   \<and> normals (tiny_mesh (1 / 2 ^ 20) (1 / 2 ^ 40))
       = [0, 0, 1 / 2 ^ 40, 0, 0, 1 / 2 ^ 40, 0, 0, 1 / 2 ^ 40 :: real]
   \<and> sqrt (0 * 0 + 0 * 0 + (1 / 2 ^ 40) * (1 / 2 ^ 40)) = 1 / 2 ^ 40
   \<and> \<not> (1 / 2 ^ 40 > (1 / 10 ^ 12 :: real))
   \<and> (1 / 2 ^ 40 :: real) \<noteq> 0 \<and> (1 / 2 ^ 40 :: real) \<noteq> 1"
proof -
  have a: "append_triangulation empty_mesh (small_triangle (1 / 2 ^ 20 :: real)) None False
     = Some (tiny_mesh (1 / 2 ^ 20) (1 / 2 ^ 40))"
    by (rule append_small_triangle) simp_all
  have n: "normalize_normals sqrt (1 / 10 ^ 12) (tiny_mesh (1 / 2 ^ 20) (1 / 2 ^ 40 :: real))
       = Some (tiny_mesh (1 / 2 ^ 20) (1 / 2 ^ 40))"
  proof (rule normalize_small_normals [where q = "1 / 2 ^ 80"])
    show "sqrt (1 / 2 ^ 80) = 1 / 2 ^ 40" by (rule sqrt_tiny)
  qed simp_all
  have l: "cg_load_stl sqrt (1 / 10 ^ 12) tiny_stl_reader (Some ''tiny.stl'')
         (initial_state :: (string, real) api_state)
       = Some (1, initial_state\<lparr>g_mesh_store := [1 \<mapsto> tiny_mesh (1 / 2 ^ 20) (1 / 2 ^ 40)],
                    g_mesh_next_id := 2\<rparr>)"
  proof -
    have "cg_load_stl sqrt (1 / 10 ^ 12) tiny_stl_reader (Some ''tiny.stl'')
          (initial_state :: (string, real) api_state)
        = Some (mesh_store_insert (tiny_mesh (1 / 2 ^ 20) (1 / 2 ^ 40)) initial_state)"
      by (simp only: cg_load_stl_def tiny_stl_reader_def a n option.simps outcome.simps
          Option.bind.simps)
    then show ?thesis
      by (simp add: mesh_store_insert_def Let_def initial_state_def emplace_def)
  qed
  have m: "sqrt (0 * 0 + 0 * 0 + (1 / 2 ^ 40) * (1 / 2 ^ 40)) = 1 / 2 ^ 40"
    using sqrt_tiny by simp
  have c: "\<not> (1 / 2 ^ 40 > (1 / 10 ^ 12 :: real))" by simp
  have z: "(1 / 2 ^ 40 :: real) \<noteq> 0" "(1 / 2 ^ 40 :: real) \<noteq> 1" by simp_all
  have ns: "normals (tiny_mesh (1 / 2 ^ 20) (1 / 2 ^ 40))
       = [0, 0, 1 / 2 ^ 40, 0, 0, 1 / 2 ^ 40, 0, 0, 1 / 2 ^ 40 :: real]"
    by (simp add: tiny_mesh_def)
  from a n l m c z ns show ?thesis by (simp only: simp_thms)
qed

section \<open>The error boundary\<close>

lemma set_last_error_frame:
  "registry (set_last_error msg st) = registry st"
  "g_mesh_store (set_last_error msg st) = g_mesh_store st"
  "g_mesh_next_id (set_last_error msg st) = g_mesh_next_id st"
  "g_last_error (set_last_error msg st) = msg"
  by (simp_all add: set_last_error_def)

lemma tessellate_catch_nonempty: "tessellate_catch e \<noteq> []"
  by (cases e) (simp_all add: tessellate_catch_def)

lemma cg_shape_tessellate_failure:
  assumes "cg_shape_tessellate std_sqrt eps mesher h chord_tol angle_tol st = Some (r, st')"
    and "tessellate_fails mesher h chord_tol angle_tol st"
  shows "r = CG_NULL_ID \<and> g_last_error st' \<noteq> [] \<and> g_mesh_store st' = g_mesh_store st
       \<and> g_mesh_next_id st' = g_mesh_next_id st \<and> registry st' = registry st"
  using assms
  by (auto simp add: cg_shape_tessellate_def tessellate_fails_def registry_get_shape_def
      get_shape_def set_last_error_frame tessellate_catch_nonempty bind_eq_Some_conv
      split: if_splits option.splits sum.splits outcome.splits registry_error.splits)

lemma cg_shape_tessellate_success:
  assumes "cg_shape_tessellate std_sqrt eps mesher h chord_tol angle_tol st = Some (r, st')"
    and "\<not> tessellate_fails mesher h chord_tol angle_tol st"
  shows "r = g_mesh_next_id st \<and> g_last_error st' = g_last_error st
       \<and> registry st' = registry st \<and> g_mesh_next_id st' = g_mesh_next_id st + 1
       \<and> (\<exists>shape faces data data'. shapes (registry st) h = Some shape
            \<and> mesher shape chord_tol angle_tol = Returns (Some faces)
            \<and> merge_faces faces empty_mesh = Some data \<and> indices data \<noteq> []
            \<and> normalize_normals std_sqrt eps data = Some data'
            \<and> g_mesh_store st' = emplace (g_mesh_store st) (g_mesh_next_id st) data')"
  using assms
  by (auto simp add: cg_shape_tessellate_def tessellate_fails_def registry_get_shape_def
      get_shape_def mesh_store_insert_def Let_def bind_eq_Some_conv
      split: if_splits option.splits sum.splits outcome.splits registry_error.splits)

lemma cg_shape_tessellate_returns:
  assumes "\<And>shape faces. mesher shape chord_tol angle_tol = Returns (Some faces) \<Longrightarrow> faces_ok faces"
  shows "\<exists>r st'. cg_shape_tessellate std_sqrt eps mesher h chord_tol angle_tol st = Some (r, st')"
proof -
  have m: "\<exists>data. merge_faces faces empty_mesh = Some data
      \<and> (indices data \<noteq> [] \<longrightarrow> (\<exists>data'. normalize_normals std_sqrt eps data = Some data'))"
    if "faces_ok faces" for faces
  proof -
    from merge_faces_ok [OF that mesh_ok_empty]
    obtain data where d: "merge_faces faces empty_mesh = Some data" "mesh_ok data" by auto
    then show ?thesis
      using normalize_normals_returns [of data] by (auto simp add: mesh_ok_def)
  qed
  show ?thesis
  proof (cases "h = CG_NULL_ID")
    case True
    then show ?thesis by (simp add: cg_shape_tessellate_def)
  next
    case False
    show ?thesis
    proof (cases "registry_get_shape h st")
      case (Inl e)
      then show ?thesis using False
        by (cases e) (simp add: cg_shape_tessellate_def)
    next
      case (Inr shape)
      show ?thesis
      proof (cases "mesher shape chord_tol angle_tol")
        case (Throws e)
        then show ?thesis using False Inr by (simp add: cg_shape_tessellate_def)
      next
        case (Returns res)
        show ?thesis
        proof (cases res)
          case None
          then show ?thesis using False Inr Returns by (simp add: cg_shape_tessellate_def)
        next
          case (Some faces)
          from m [OF assms [OF Returns [unfolded Some]]]
          obtain data where d: "merge_faces faces empty_mesh = Some data"
            "indices data \<noteq> [] \<longrightarrow> (\<exists>data'. normalize_normals std_sqrt eps data = Some data')" by auto
          show ?thesis
            using False Inr Returns Some d
            by (cases "mesh_store_insert (the (normalize_normals std_sqrt eps data)) st")
              (auto simp add: cg_shape_tessellate_def)
        qed
      qed
    qed
  qed
qed

lemma cg_shape_tessellate_fails:
  assumes "tessellate_fails mesher h chord_tol angle_tol st"
  shows "\<exists>st'. cg_shape_tessellate std_sqrt eps mesher h chord_tol angle_tol st
             = Some (CG_NULL_ID, st')
           \<and> g_last_error st' \<noteq> [] \<and> g_mesh_store st' = g_mesh_store st
           \<and> g_mesh_next_id st' = g_mesh_next_id st \<and> registry st' = registry st"
  using assms
  by (auto simp add: cg_shape_tessellate_def tessellate_fails_def registry_get_shape_def
      get_shape_def set_last_error_frame tessellate_catch_nonempty
      split: if_splits option.splits sum.splits outcome.splits registry_error.splits)

lemma cg_shape_tessellate_stores:
  assumes h: "h \<noteq> CG_NULL_ID"
    and s: "shapes (registry st) h = Some shape"
    and m: "mesher shape chord_tol angle_tol = Returns (Some faces)"
    and d: "merge_faces faces empty_mesh = Some data"
    and i: "indices data \<noteq> []"
  shows "\<exists>data'. normalize_normals std_sqrt eps data = Some data'
           \<and> cg_shape_tessellate std_sqrt eps mesher h chord_tol angle_tol st
               = Some (g_mesh_next_id st,
                   st\<lparr>g_mesh_store := emplace (g_mesh_store st) (g_mesh_next_id st) data',
                      g_mesh_next_id := g_mesh_next_id st + 1\<rparr>)"
proof -
  have "length (normals data) = length (vertices data)"
    using merge_faces_lengths [OF d] by (simp add: empty_mesh_def)
  from normalize_normals_returns [OF this, of std_sqrt eps]
  obtain data' where n: "normalize_normals std_sqrt eps data = Some data'" by auto
  have "cg_shape_tessellate std_sqrt eps mesher h chord_tol angle_tol st
      = Some (g_mesh_next_id st,
          st\<lparr>g_mesh_store := emplace (g_mesh_store st) (g_mesh_next_id st) data',
             g_mesh_next_id := g_mesh_next_id st + 1\<rparr>)"
    using h s m d i n
    by (simp add: cg_shape_tessellate_def registry_get_shape_def get_shape_def
        mesh_store_insert_def Let_def)
  with n show ?thesis by blast
qed

lemma tessellate_unit_face:
  "merge_faces [unit_face] empty_mesh = Some triangle_mesh"
  by (rule merge_unit_face [unfolded append_Nil])

text \<open>
  Claim C7. In each failure case (the null handle, an id absent from the registry, a mesher
  that throws or does not complete, a merge that produces no triangle)
  \<open>cg_shape_tessellate\<close> returns the sentinel 0 and leaves a non-empty last-error message,
  and the mesh store, its counter and the registry are as before. For the null handle and
  for the empty merge the result is given in full. In every other case in which the merge
  returns, the call stores the normalized mesh and returns its id, and the merge does return
  when the triangles of every face name only that face's nodes. While the mesh counter
  is not 0, the result is 0 with a non-empty message only in the failure cases: the id of a
  stored mesh is not 0 and leaves the message as it was.
\<close>

theorem cg_shape_tessellate_sentinel:
  "(tessellate_fails mesher h chord_tol angle_tol st \<longrightarrow>
      (\<exists>st'. cg_shape_tessellate std_sqrt eps mesher h chord_tol angle_tol st
                = Some (CG_NULL_ID, st')
         \<and> g_last_error st' \<noteq> [] \<and> g_mesh_store st' = g_mesh_store st
         \<and> g_mesh_next_id st' = g_mesh_next_id st \<and> registry st' = registry st))
   \<and> cg_shape_tessellate std_sqrt eps mesher CG_NULL_ID chord_tol angle_tol st
       = Some (CG_NULL_ID, set_last_error ''cg_shape_tessellate: null handle'' st)
   \<and> (h \<noteq> CG_NULL_ID \<and> shapes (registry st) h = Some shape
        \<and> mesher shape chord_tol angle_tol = Returns (Some faces)
        \<and> merge_faces faces empty_mesh = Some data \<and> indices data = [] \<longrightarrow>
      cg_shape_tessellate std_sqrt eps mesher h chord_tol angle_tol st
        = Some (CG_NULL_ID, set_last_error ''cg_shape_tessellate: no triangles produced'' st))
   \<and> (h \<noteq> CG_NULL_ID \<and> shapes (registry st) h = Some shape
        \<and> mesher shape chord_tol angle_tol = Returns (Some faces)
        \<and> merge_faces faces empty_mesh = Some data \<and> indices data \<noteq> [] \<longrightarrow>
      (\<exists>data'. normalize_normals std_sqrt eps data = Some data'
         \<and> cg_shape_tessellate std_sqrt eps mesher h chord_tol angle_tol st
             = Some (g_mesh_next_id st,
                 st\<lparr>g_mesh_store := emplace (g_mesh_store st) (g_mesh_next_id st) data',
                    g_mesh_next_id := g_mesh_next_id st + 1\<rparr>)))
   \<and> (faces_ok faces \<longrightarrow> (\<exists>data. merge_faces faces empty_mesh = Some data))
   \<and> (cg_shape_tessellate std_sqrt eps mesher h chord_tol angle_tol st = Some (r, st')
        \<and> g_mesh_next_id st \<noteq> CG_NULL_ID \<longrightarrow>
      ((r = CG_NULL_ID \<and> g_last_error st' \<noteq> [])
         = tessellate_fails mesher h chord_tol angle_tol st)
      \<and> (\<not> tessellate_fails mesher h chord_tol angle_tol st \<longrightarrow>
           r = g_mesh_next_id st \<and> r \<noteq> CG_NULL_ID \<and> g_last_error st' = g_last_error st))"
proof -
  have a: "cg_shape_tessellate std_sqrt eps mesher CG_NULL_ID chord_tol angle_tol st
       = Some (CG_NULL_ID, set_last_error ''cg_shape_tessellate: null handle'' st)"
    by (simp add: cg_shape_tessellate_def)
  have b: "cg_shape_tessellate std_sqrt eps mesher h chord_tol angle_tol st
        = Some (CG_NULL_ID, set_last_error ''cg_shape_tessellate: no triangles produced'' st)"
    if "h \<noteq> CG_NULL_ID" "shapes (registry st) h = Some shape"
      "mesher shape chord_tol angle_tol = Returns (Some faces)"
      "merge_faces faces empty_mesh = Some data" "indices data = []"
    using that
    by (simp add: cg_shape_tessellate_def registry_get_shape_def get_shape_def)
  have c: "\<exists>data. merge_faces faces empty_mesh = Some data" if "faces_ok faces"
    using merge_faces_ok [OF that mesh_ok_empty] by blast
  have d: "((r = CG_NULL_ID \<and> g_last_error st' \<noteq> [])
         = tessellate_fails mesher h chord_tol angle_tol st)
      \<and> (\<not> tessellate_fails mesher h chord_tol angle_tol st \<longrightarrow>
           r = g_mesh_next_id st \<and> r \<noteq> CG_NULL_ID \<and> g_last_error st' = g_last_error st)"
    if r: "cg_shape_tessellate std_sqrt eps mesher h chord_tol angle_tol st = Some (r, st')"
      and n: "g_mesh_next_id st \<noteq> CG_NULL_ID"
  proof (cases "tessellate_fails mesher h chord_tol angle_tol st")
    case True
    with cg_shape_tessellate_failure [OF r] show ?thesis by simp
  next
    case False
    with cg_shape_tessellate_success [OF r] n show ?thesis by auto
  qed
  from a b c d cg_shape_tessellate_fails [of mesher h chord_tol angle_tol st std_sqrt eps]
    cg_shape_tessellate_stores [of h st shape mesher chord_tol angle_tol faces data std_sqrt eps]
  show ?thesis by (simp only: simp_thms) blast
qed

theorem cg_shape_tessellate_sentinel_witness:
  "cg_shape_tessellate sqrt (1 / 10 ^ 12) no_faces_mesher 1 (1 / 10) (1 / 2) one_shape_state
     = Some (CG_NULL_ID,
         set_last_error ''cg_shape_tessellate: no triangles produced'' one_shape_state)
   \<and> (\<exists>st'. cg_shape_tessellate sqrt (1 / 10 ^ 12) no_faces_mesher 7 (1 / 10) (1 / 2)
               one_shape_state = Some (CG_NULL_ID, st')
         \<and> g_last_error st' \<noteq> [] \<and> g_mesh_store st' = g_mesh_store one_shape_state
         \<and> g_mesh_next_id st' = g_mesh_next_id one_shape_state
         \<and> registry st' = registry one_shape_state)
   \<and> (\<exists>data'. normalize_normals sqrt (1 / 10 ^ 12) triangle_mesh = Some data'
         \<and> cg_shape_tessellate sqrt (1 / 10 ^ 12) unit_face_mesher 1 (1 / 10) (1 / 2)
               one_shape_state
             = Some (1, one_shape_state\<lparr>g_mesh_store := emplace (g_mesh_store one_shape_state) 1 data',
                          g_mesh_next_id := 1 + 1\<rparr>))
   \<and> tessellate_fails no_faces_mesher 1 (1 / 10) (1 / 2) one_shape_state
   \<and> (\<exists>data. merge_faces [unit_face] empty_mesh = Some data)"
proof -
  have h: "(1 :: handle) \<noteq> CG_NULL_ID" by (simp add: CG_NULL_ID_def)
  have s: "shapes (registry one_shape_state) 1 = Some ''box''"
    by (simp add: one_shape_state_def registry_store_shape_def store_shape_def emplace_def
        initial_state_def new_registry_def Let_def)
  have n: "g_mesh_next_id one_shape_state = 1"
    by (simp add: one_shape_state_def registry_store_shape_def store_shape_def Let_def
        initial_state_def)
  have e: "merge_faces [] empty_mesh = Some (empty_mesh :: real CgMeshData)" by simp
  have i: "indices (empty_mesh :: real CgMeshData) = []" by (simp add: empty_mesh_def)
  have absent: "tessellate_fails no_faces_mesher 7 (1 / 10) (1 / 2) one_shape_state"
    by (simp add: tessellate_fails_def one_shape_state_def registry_store_shape_def
        store_shape_def emplace_def initial_state_def new_registry_def Let_def CG_NULL_ID_def)
  have t: "indices triangle_mesh \<noteq> []" by (simp add: triangle_mesh_def)
  have n0: "g_mesh_next_id one_shape_state \<noteq> CG_NULL_ID"
    by (simp add: n CG_NULL_ID_def)
  have ok: "faces_ok [unit_face]"
    by (simp add: faces_ok_def unit_face_def triangulation_ok_def triangle_ok_def node_ok_def)
  have r1: "cg_shape_tessellate sqrt (1 / 10 ^ 12) no_faces_mesher 1 (1 / 10) (1 / 2) one_shape_state
     = Some (CG_NULL_ID,
         set_last_error ''cg_shape_tessellate: no triangles produced'' one_shape_state)"
    by (rule cg_shape_tessellate_sentinel [where h = 1 and shape = "''box''" and faces = "[]"
          and data = empty_mesh, THEN conjunct2, THEN conjunct2, THEN conjunct1, rule_format])
      (simp only: h s e i no_faces_mesher_def simp_thms)
  have "\<exists>st'. cg_shape_tessellate sqrt (1 / 10 ^ 12) no_faces_mesher 7 (1 / 10) (1 / 2)
               one_shape_state = Some (CG_NULL_ID, st')
         \<and> g_last_error st' \<noteq> [] \<and> g_mesh_store st' = g_mesh_store one_shape_state
         \<and> g_mesh_next_id st' = g_mesh_next_id one_shape_state
         \<and> registry st' = registry one_shape_state"
    by (rule cg_shape_tessellate_sentinel [THEN conjunct1, rule_format, OF absent])
  moreover have "\<exists>data'. normalize_normals sqrt (1 / 10 ^ 12) triangle_mesh = Some data'
         \<and> cg_shape_tessellate sqrt (1 / 10 ^ 12) unit_face_mesher 1 (1 / 10) (1 / 2)
               one_shape_state
             = Some (1, one_shape_state\<lparr>g_mesh_store := emplace (g_mesh_store one_shape_state) 1 data',
                          g_mesh_next_id := 1 + 1\<rparr>)"
    using cg_shape_tessellate_sentinel [where h = 1 and shape = "''box''"
        and faces = "[unit_face]" and data = triangle_mesh and mesher = unit_face_mesher
        and st = one_shape_state and chord_tol = "1 / 10" and angle_tol = "1 / 2"
        and std_sqrt = sqrt and eps = "1 / 10 ^ 12",
        THEN conjunct2, THEN conjunct2, THEN conjunct2, THEN conjunct1, rule_format]
      h s t tessellate_unit_face
    by (simp only: n unit_face_mesher_def simp_thms)
  moreover have "tessellate_fails no_faces_mesher 1 (1 / 10) (1 / 2) one_shape_state"
    using cg_shape_tessellate_sentinel [where h = 1 and r = CG_NULL_ID
        and mesher = no_faces_mesher and st = one_shape_state
        and st' = "set_last_error ''cg_shape_tessellate: no triangles produced'' one_shape_state"
        and chord_tol = "1 / 10" and angle_tol = "1 / 2" and std_sqrt = sqrt
        and eps = "1 / 10 ^ 12",
        THEN conjunct2, THEN conjunct2, THEN conjunct2, THEN conjunct2, THEN conjunct2,
        rule_format, OF conjI [OF r1 n0], THEN conjunct1]
    by (simp add: set_last_error_def)
  moreover have "\<exists>data. merge_faces [unit_face] empty_mesh = Some data"
    by (rule cg_shape_tessellate_sentinel [THEN conjunct2, THEN conjunct2, THEN conjunct2,
          THEN conjunct2, THEN conjunct1, rule_format, OF ok])
  ultimately show ?thesis using r1 by (simp only: simp_thms)
qed

text \<open>
  Claim C8. With the null handle, a null destination or an id absent from the mesh store,
  each of the three copy operations returns \<open>CG_ERR_NULL_HANDLE\<close> and the destination is
  as it was. With a live handle and a destination that holds at least the buffer's length,
  each returns \<open>CG_OK\<close>, the destination starts with the stored buffer and keeps what lay
  beyond it, and the state is unchanged.
\<close>

theorem cg_mesh_copy_contract:
  "(h = CG_NULL_ID \<or> dv = None \<longrightarrow>
      cg_mesh_copy_vertices h dv st = Some (CG_ERR_NULL_HANDLE, dv,
        set_last_error ''cg_mesh_copy_vertices: null argument'' st)
    \<and> cg_mesh_copy_normals h dv st = Some (CG_ERR_NULL_HANDLE, dv,
        set_last_error ''cg_mesh_copy_normals: null argument'' st))
   \<and> (h = CG_NULL_ID \<or> di = None \<longrightarrow>
      cg_mesh_copy_indices h di st = Some (CG_ERR_NULL_HANDLE, di,
        set_last_error ''cg_mesh_copy_indices: null argument'' st))
   \<and> (h \<noteq> CG_NULL_ID \<and> mesh_store_get h st = None \<longrightarrow>
      cg_mesh_copy_vertices h (Some bv) st = Some (CG_ERR_NULL_HANDLE, Some bv,
        set_last_error ''cg_mesh_copy_vertices: invalid mesh ID'' st)
    \<and> cg_mesh_copy_normals h (Some bn) st = Some (CG_ERR_NULL_HANDLE, Some bn,
        set_last_error ''cg_mesh_copy_normals: invalid mesh ID'' st)
    \<and> cg_mesh_copy_indices h (Some bi) st = Some (CG_ERR_NULL_HANDLE, Some bi,
        set_last_error ''cg_mesh_copy_indices: invalid mesh ID'' st))
   \<and> (h \<noteq> CG_NULL_ID \<and> mesh_store_get h st = Some mesh \<longrightarrow>
        (length (vertices mesh) \<le> length bv \<longrightarrow>
           cg_mesh_copy_vertices h (Some bv) st
             = Some (CG_OK, Some (vertices mesh @ drop (length (vertices mesh)) bv), st))
      \<and> (length (normals mesh) \<le> length bn \<longrightarrow>
           cg_mesh_copy_normals h (Some bn) st
             = Some (CG_OK, Some (normals mesh @ drop (length (normals mesh)) bn), st))
      \<and> (length (indices mesh) \<le> length bi \<longrightarrow>
           cg_mesh_copy_indices h (Some bi) st
             = Some (CG_OK, Some (indices mesh @ drop (length (indices mesh)) bi), st)))"
  by (auto simp add: cg_mesh_copy_vertices_def cg_mesh_copy_normals_def cg_mesh_copy_indices_def
      memcpy_def)

lemma one_mesh_state_get:
  "mesh_store_get 1 one_mesh_state = Some triangle_mesh"
  "mesh_store_get 2 one_mesh_state = None"
  by (simp_all add: one_mesh_state_def mesh_store_insert_def mesh_store_get_def emplace_def
      initial_state_def Let_def)

theorem cg_mesh_copy_contract_witness:
  "cg_mesh_copy_vertices 1 (Some [9, 9, 9, 9, 9, 9, 9, 9, 9]) one_mesh_state
     = Some (CG_OK, Some [0, 0, 0, 1, 0, 0, 0, 1, 0], one_mesh_state)
   \<and> cg_mesh_copy_normals 1 (Some [9, 9, 9, 9, 9, 9, 9, 9, 9]) one_mesh_state
     = Some (CG_OK, Some [0, 0, 1, 0, 0, 1, 0, 0, 1], one_mesh_state)
   \<and> cg_mesh_copy_indices 1 (Some [7, 7, 7]) one_mesh_state
     = Some (CG_OK, Some [0, 1, 2], one_mesh_state)
   \<and> cg_mesh_copy_indices 2 (Some [7, 7, 7]) one_mesh_state
     = Some (CG_ERR_NULL_HANDLE, Some [7, 7, 7],
         set_last_error ''cg_mesh_copy_indices: invalid mesh ID'' one_mesh_state)
   \<and> cg_mesh_copy_vertices 1 None one_mesh_state
     = Some (CG_ERR_NULL_HANDLE, None,
         set_last_error ''cg_mesh_copy_vertices: null argument'' one_mesh_state)"
proof -
  note c = cg_mesh_copy_contract [of 1 "None" one_mesh_state "None" _ _ _ triangle_mesh]
  note live = cg_mesh_copy_contract [of 1 "Some []" one_mesh_state "Some []"
      "[9, 9, 9, 9, 9, 9, 9, 9, 9]" "[9, 9, 9, 9, 9, 9, 9, 9, 9]" "[7, 7, 7]" triangle_mesh,
      THEN conjunct2, THEN conjunct2, THEN conjunct2, rule_format]
  note stale = cg_mesh_copy_contract [of 2 "Some []" one_mesh_state "Some []"
      "[9, 9, 9, 9, 9, 9, 9, 9, 9]" "[9, 9, 9, 9, 9, 9, 9, 9, 9]" "[7, 7, 7]" triangle_mesh,
      THEN conjunct2, THEN conjunct2, THEN conjunct1, rule_format]
  have ne: "(1::handle) \<noteq> CG_NULL_ID" "(2::handle) \<noteq> CG_NULL_ID"
    by (simp_all add: CG_NULL_ID_def)
  have "cg_mesh_copy_vertices 1 (Some [9, 9, 9, 9, 9, 9, 9, 9, 9]) one_mesh_state
     = Some (CG_OK, Some [0, 0, 0, 1, 0, 0, 0, 1, 0], one_mesh_state)"
    using live [THEN conjunct1] ne one_mesh_state_get by (simp add: triangle_mesh_def)
  moreover have "cg_mesh_copy_normals 1 (Some [9, 9, 9, 9, 9, 9, 9, 9, 9]) one_mesh_state
     = Some (CG_OK, Some [0, 0, 1, 0, 0, 1, 0, 0, 1], one_mesh_state)"
    using live [THEN conjunct2, THEN conjunct1] ne one_mesh_state_get
    by (simp add: triangle_mesh_def)
  moreover have "cg_mesh_copy_indices 1 (Some [7, 7, 7]) one_mesh_state
     = Some (CG_OK, Some [0, 1, 2], one_mesh_state)"
    using live [THEN conjunct2, THEN conjunct2] ne one_mesh_state_get
    by (simp add: triangle_mesh_def)
  moreover have "cg_mesh_copy_indices 2 (Some [7, 7, 7]) one_mesh_state
     = Some (CG_ERR_NULL_HANDLE, Some [7, 7, 7],
         set_last_error ''cg_mesh_copy_indices: invalid mesh ID'' one_mesh_state)"
    using stale [THEN conjunct2, THEN conjunct2] ne one_mesh_state_get by simp
  moreover have "cg_mesh_copy_vertices 1 None one_mesh_state
     = Some (CG_ERR_NULL_HANDLE, None,
         set_last_error ''cg_mesh_copy_vertices: null argument'' one_mesh_state)"
    using c [THEN conjunct1] by simp
  ultimately show ?thesis by (simp only: simp_thms)
qed

text \<open>
  Claim C3, as amended. Given a null path, the null handle or a null destination, the
  operations \<open>cg_load_step\<close>, \<open>cg_load_stl\<close>, \<open>cg_shape_bounding_box\<close>,
  \<open>cg_shape_tessellate\<close> and the three copy operations set the last-error message and
  return their sentinel, whatever the kernel would do, and setting the message changes
  neither the registry nor the mesh store. The count queries return 0 for the null handle
  and the free operations return at once; these leave the whole state, the last-error
  message included, as it was.
\<close>

theorem null_argument_protocol:
  "cg_load_step step_reader None st = (CG_NULL_ID, set_last_error ''cg_load_step: null path'' st)
   \<and> cg_load_stl std_sqrt eps stl_reader None st
       = Some (CG_NULL_ID, set_last_error ''cg_load_stl: null path'' st)
   \<and> cg_shape_bounding_box add_optimal CG_NULL_ID st
       = (zero_bbox, set_last_error ''cg_shape_bounding_box: null handle'' st)
   \<and> cg_shape_tessellate std_sqrt eps mesher CG_NULL_ID chord_tol angle_tol st
       = Some (CG_NULL_ID, set_last_error ''cg_shape_tessellate: null handle'' st)
   \<and> cg_mesh_copy_vertices CG_NULL_ID dv st
       = Some (CG_ERR_NULL_HANDLE, dv, set_last_error ''cg_mesh_copy_vertices: null argument'' st)
   \<and> cg_mesh_copy_vertices h None st
       = Some (CG_ERR_NULL_HANDLE, None, set_last_error ''cg_mesh_copy_vertices: null argument'' st)
   \<and> cg_mesh_copy_normals CG_NULL_ID dv st
       = Some (CG_ERR_NULL_HANDLE, dv, set_last_error ''cg_mesh_copy_normals: null argument'' st)
   \<and> cg_mesh_copy_normals h None st
       = Some (CG_ERR_NULL_HANDLE, None, set_last_error ''cg_mesh_copy_normals: null argument'' st)
   \<and> cg_mesh_copy_indices CG_NULL_ID di st
       = Some (CG_ERR_NULL_HANDLE, di, set_last_error ''cg_mesh_copy_indices: null argument'' st)
   \<and> cg_mesh_copy_indices h None st
       = Some (CG_ERR_NULL_HANDLE, None, set_last_error ''cg_mesh_copy_indices: null argument'' st)
   \<and> registry (set_last_error msg st) = registry st
   \<and> g_mesh_store (set_last_error msg st) = g_mesh_store st
   \<and> g_mesh_next_id (set_last_error msg st) = g_mesh_next_id st
   \<and> g_last_error (set_last_error msg st) = msg
   \<and> cg_mesh_vertex_count CG_NULL_ID st = (0, st)
   \<and> cg_mesh_triangle_count CG_NULL_ID st = (0, st)
   \<and> cg_shape_free CG_NULL_ID st = st
   \<and> cg_mesh_free CG_NULL_ID st = st"
  by (simp add: cg_load_step_def cg_load_stl_def cg_shape_bounding_box_def cg_shape_tessellate_def
      cg_mesh_copy_vertices_def cg_mesh_copy_normals_def cg_mesh_copy_indices_def
      cg_mesh_vertex_count_def cg_mesh_triangle_count_def cg_shape_free_def cg_mesh_free_def
      set_last_error_def)

theorem null_argument_protocol_witness:
  "cg_shape_tessellate sqrt (1 / 10 ^ 12) no_faces_mesher CG_NULL_ID (1 / 10) (1 / 2) one_shape_state
       = Some (CG_NULL_ID, set_last_error ''cg_shape_tessellate: null handle'' one_shape_state)
   \<and> g_last_error (set_last_error ''cg_shape_tessellate: null handle'' one_shape_state)
       = ''cg_shape_tessellate: null handle''
   \<and> registry (set_last_error ''cg_shape_tessellate: null handle'' one_shape_state)
       = registry one_shape_state
   \<and> cg_mesh_vertex_count CG_NULL_ID one_shape_state = (0, one_shape_state)"
  using null_argument_protocol [where st = one_shape_state and std_sqrt = sqrt
      and eps = "1 / 10 ^ 12" and mesher = no_faces_mesher and chord_tol = "1 / 10"
      and angle_tol = "1 / 2" and msg = "''cg_shape_tessellate: null handle''"]
  by (simp only: simp_thms)

text \<open>
  Claim C3 as stated fails: after a count query on the null handle in the initial state the
  last-error message is still empty.
\<close>

theorem count_query_sets_no_error:
  "cg_mesh_vertex_count CG_NULL_ID (initial_state :: (string, real) api_state) = (0, initial_state)
   \<and> cg_mesh_triangle_count CG_NULL_ID (initial_state :: (string, real) api_state) = (0, initial_state)
   \<and> g_last_error (snd (cg_mesh_vertex_count CG_NULL_ID (initial_state :: (string, real) api_state))) = []
   \<and> g_last_error (snd (cg_mesh_triangle_count CG_NULL_ID (initial_state :: (string, real) api_state))) = []"
  by (simp add: cg_mesh_vertex_count_def cg_mesh_triangle_count_def initial_state_def)

end
